theory Spec2Isabelle
  imports Main
begin

section \<open>Domain schemas (app/schemas/models.py)\<close>

text \<open>
  The enumerations of the source become datatypes, the Pydantic models become records.
  Python's unbounded \<open>int\<close> is \<open>int\<close>, \<open>Optional[T]\<close> is \<open>T option\<close>, a
  \<open>datetime\<close> is a clock reading (\<open>nat\<close>), and the opaque \<open>Dict[str, Any]\<close> payloads
  are association lists of strings.
\<close>

datatype GoalStatus = RECEIVED | PLANNING | EXECUTING | PAUSED | GOAL_COMPLETED | GOAL_FAILED

datatype StepStatus = PENDING | IN_PROGRESS | EVALUATING | COMPLETED | FAILED | SKIPPED | REPLANNED

datatype StepPriority = HIGH | MEDIUM | LOW

datatype EvalResult = SUCCESS | FAILURE | PARTIAL

type_synonym payload = "(string \<times> string) list"

record Step =
  step_id :: string
  title :: string
  description :: string
  expected_outcome :: string
  thought_process :: string
  priority :: StepPriority
  depends_on :: "string list"
  required_tools :: "string list"
  status :: StepStatus
  result_payload :: "payload option"
  error_message :: "string option"
  retry_count :: int
  max_retries :: int
  started_at :: "nat option"
  completed_at :: "nat option"

record Plan =
  plan_id :: string
  goal_id :: string
  version :: int
  is_active :: bool
  steps :: "Step list"
  created_at :: nat

subsection \<open>Plan.get_ready_steps, Plan.is_complete, Plan.has_failed_steps\<close>

text \<open>The set comprehension \<open>completed_ids\<close> of \<open>get_ready_steps\<close>.\<close>

definition completed_ids :: "Plan \<Rightarrow> string set" where
  "completed_ids p =
     set (map step_id (filter (\<lambda>s. status s = COMPLETED \<or> status s = SKIPPED) (steps p)))"

definition get_ready_steps :: "Plan \<Rightarrow> Step list" where
  "get_ready_steps p =
     filter (\<lambda>s. status s = PENDING \<and> list_all (\<lambda>dep. dep \<in> completed_ids p) (depends_on s))
       (steps p)"

definition is_complete :: "Plan \<Rightarrow> bool" where
  "is_complete p = list_all (\<lambda>s. status s = COMPLETED \<or> status s = SKIPPED) (steps p)"

definition has_failed_steps :: "Plan \<Rightarrow> bool" where
  "has_failed_steps p = list_ex (\<lambda>s. status s = FAILED) (steps p)"

text \<open>The step constructor with the defaults the model declares (the three required
  fields are its arguments).\<close>

definition new_step :: "string \<Rightarrow> string \<Rightarrow> string \<Rightarrow> string \<Rightarrow> Step" where
  "new_step sid t d eo =
     \<lparr> step_id = sid, title = t, description = d, expected_outcome = eo,
       thought_process = [], priority = MEDIUM, depends_on = [], required_tools = [],
       status = PENDING, result_payload = None, error_message = None,
       retry_count = 0, max_retries = 3, started_at = None, completed_at = None \<rparr>"

section \<open>Exceptions and small Python helpers\<close>

text \<open>
  A raised exception is a value: its class name and its message (\<open>str(e)\<close>). Every
  function of the source that can raise returns \<open>exn + 'a\<close>, with \<open>Inl\<close> for the raise.
\<close>

datatype exn = Exn (exn_type: string) (exn_str: string)

text \<open>\<open>d.get(key, default)\<close> on a key that may be absent.\<close>

definition get_or :: "'a option \<Rightarrow> 'a \<Rightarrow> 'a" where
  "get_or v d = (case v of None \<Rightarrow> d | Some x \<Rightarrow> x)"

text \<open>Decimal rendering of an integer, as an f-string does it.\<close>

definition digit_char :: "nat \<Rightarrow> char" where
  "digit_char d = char_of (48 + d)"

function str_nat :: "nat \<Rightarrow> string" where
  "str_nat n = (if n < 10 then [digit_char n] else str_nat (n div 10) @ [digit_char (n mod 10)])"
  by pat_completeness auto
termination
  by (relation "measure id") auto

definition str_int :: "int \<Rightarrow> string" where
  "str_int i = (if i < 0 then CHR ''-'' # str_nat (nat (- i)) else str_nat (nat i))"

text \<open>\<open>list(dict.fromkeys(xs))\<close>: duplicates removed, the first occurrence kept.\<close>

fun dedup_first :: "'a list \<Rightarrow> 'a list" where
  "dedup_first [] = []"
| "dedup_first (x # xs) = x # dedup_first (filter (\<lambda>y. y \<noteq> x) xs)"

text \<open>The string values of the \<open>StepPriority\<close> enumeration and the conversion
  \<open>StepPriority(value)\<close>, which raises \<open>ValueError\<close> on any other string.\<close>

fun priority_value :: "StepPriority \<Rightarrow> string" where
  "priority_value HIGH = ''high''"
| "priority_value MEDIUM = ''medium''"
| "priority_value LOW = ''low''"

definition StepPriority_of :: "string \<Rightarrow> exn + StepPriority" where
  "StepPriority_of v =
     (if v = ''high'' then Inr HIGH
      else if v = ''medium'' then Inr MEDIUM
      else if v = ''low'' then Inr LOW
      else Inl (Exn ''ValueError'' (v @ '' is not a valid StepPriority'')))"

section \<open>Replanner agent (app/cognitive/agents/replanner.py)\<close>

text \<open>
  The parsed JSON answer of the language model. Every key may be absent (\<open>None\<close>); the
  priority stays a raw string until \<open>StepPriority(...)\<close> converts it. \<open>ms_is_new\<close> is the
  truth value of \<open>ms.get("is_new", False)\<close>.
\<close>

record ModifiedStep =
  ms_step_id :: "string option"
  ms_title :: "string option"
  ms_description :: "string option"
  ms_expected_outcome :: "string option"
  ms_thought_process :: "string option"
  ms_priority :: "string option"
  ms_depends_on :: "string list option"
  ms_required_tools :: "string list option"
  ms_is_new :: bool

record ReplanData =
  rd_strategy :: "string option"
  rd_reasoning :: "string option"
  rd_modified_steps :: "ModifiedStep list"

text \<open>The dictionary \<open>modified_by_id\<close>: entries with a non-empty \<open>step_id\<close> that are not
  new; a later entry overwrites an earlier one with the same key.\<close>

definition modified_by_id :: "ModifiedStep list \<Rightarrow> string \<Rightarrow> ModifiedStep option" where
  "modified_by_id mss =
     map_of (rev (List.map_filter
       (\<lambda>ms. case ms_step_id ms of
                None \<Rightarrow> None
              | Some k \<Rightarrow> if k \<noteq> [] \<and> \<not> ms_is_new ms then Some (k, ms) else None) mss))"

text \<open>The field overwrites applied to the copy of an existing step.\<close>

definition edit_step :: "ModifiedStep \<Rightarrow> Step \<Rightarrow> exn + Step" where
  "edit_step ms c =
     (case StepPriority_of (get_or (ms_priority ms) (priority_value (priority c))) of
        Inl e \<Rightarrow> Inl e
      | Inr pr \<Rightarrow>
          Inr (c \<lparr> title := get_or (ms_title ms) (title c),
                   description := get_or (ms_description ms) (description c),
                   expected_outcome := get_or (ms_expected_outcome ms) (expected_outcome c),
                   thought_process := get_or (ms_thought_process ms) (thought_process c),
                   priority := pr,
                   depends_on := get_or (ms_depends_on ms) (depends_on c),
                   required_tools := get_or (ms_required_tools ms) (required_tools c) \<rparr>))"

text \<open>The strategy branch for the step whose id is the failed step's id.\<close>

definition apply_strategy :: "string \<Rightarrow> Step \<Rightarrow> Step" where
  "apply_strategy strategy c =
     (if strategy = ''retry'' then
        c \<lparr> status := PENDING, retry_count := 0, error_message := None, result_payload := None \<rparr>
      else if strategy = ''skip'' then c \<lparr> status := SKIPPED \<rparr>
      else if strategy = ''escalate'' then
        c \<lparr> status := FAILED, error_message := Some ''Escalated for human intervention'' \<rparr>
      else c)"

text \<open>One round of the loop "Copy existing steps".\<close>

definition copy_step :: "(string \<Rightarrow> ModifiedStep option) \<Rightarrow> string \<Rightarrow> Step \<Rightarrow> Step \<Rightarrow> exn + Step" where
  "copy_step mbi strategy failed_step s =
     (case (case mbi (step_id s) of
              Some ms \<Rightarrow> if status s \<noteq> COMPLETED then edit_step ms s else Inr s
            | None \<Rightarrow> Inr s) of
        Inl e \<Rightarrow> Inl e
      | Inr c \<Rightarrow>
          Inr (if step_id s = step_id failed_step then apply_strategy strategy c else c))"

fun copy_steps :: "(string \<Rightarrow> ModifiedStep option) \<Rightarrow> string \<Rightarrow> Step \<Rightarrow> Step list \<Rightarrow> exn + Step list" where
  "copy_steps mbi strategy failed_step [] = Inr []"
| "copy_steps mbi strategy failed_step (s # ss) =
     (case copy_step mbi strategy failed_step s of
        Inl e \<Rightarrow> Inl e
      | Inr c \<Rightarrow>
          (case copy_steps mbi strategy failed_step ss of
             Inl e \<Rightarrow> Inl e
           | Inr cs \<Rightarrow> Inr (c # cs)))"

text \<open>The step built for a new entry of an \<open>insert\<close> answer. \<open>u\<close> is the random uuid drawn
  for the default id.\<close>

definition inserted_step :: "string \<Rightarrow> Step \<Rightarrow> ModifiedStep \<Rightarrow> exn + Step" where
  "inserted_step u failed_step ms =
     (case StepPriority_of (get_or (ms_priority ms) ''high'') of
        Inl e \<Rightarrow> Inl e
      | Inr pr \<Rightarrow>
          Inr \<lparr> step_id = get_or (ms_step_id ms) (''replan_'' @ take 6 u),
                title = get_or (ms_title ms) ''Recovery Step'',
                description = get_or (ms_description ms) [],
                expected_outcome = get_or (ms_expected_outcome ms) [],
                thought_process =
                  get_or (ms_thought_process ms) ''Inserted by replanner (strategy: insert)'',
                priority = pr,
                depends_on = (let d = get_or (ms_depends_on ms) []
                              in if d = [] then depends_on failed_step else d),
                required_tools = get_or (ms_required_tools ms) [],
                status = PENDING, result_payload = None, error_message = None,
                retry_count = 0, max_retries = 3, started_at = None, completed_at = None \<rparr>)"

text \<open>The loop over \<open>modified_steps\<close> of the \<open>insert\<close> strategy: the new steps in order
  (their ids are \<open>inserted_ids\<close>). \<open>uuids k\<close> is the uuid drawn at the \<open>k\<close>-th entry.\<close>

fun insert_steps :: "(nat \<Rightarrow> string) \<Rightarrow> nat \<Rightarrow> Step \<Rightarrow> ModifiedStep list \<Rightarrow> exn + Step list" where
  "insert_steps uuids k failed_step [] = Inr []"
| "insert_steps uuids k failed_step (ms # mss) =
     (if ms_is_new ms then
        (case inserted_step (uuids k) failed_step ms of
           Inl e \<Rightarrow> Inl e
         | Inr n \<Rightarrow>
             (case insert_steps uuids (Suc k) failed_step mss of
                Inl e \<Rightarrow> Inl e
              | Inr ns \<Rightarrow> Inr (n # ns)))
      else insert_steps uuids (Suc k) failed_step mss)"

text \<open>The final loop of the \<open>insert\<close> strategy, which resets the failed step.\<close>

definition reset_failed :: "Step \<Rightarrow> string list \<Rightarrow> Step \<Rightarrow> Step" where
  "reset_failed failed_step inserted_ids s =
     (if step_id s = step_id failed_step then
        s \<lparr> status := PENDING, retry_count := 0,
            depends_on := dedup_first (depends_on s @ inserted_ids),
            error_message := None, result_payload := None \<rparr>
      else s)"

text \<open>\<open>_apply_modifications\<close>. \<open>pid\<close> and \<open>now\<close> are the fresh id and the creation time the
  \<open>Plan\<close> constructor draws.\<close>

definition apply_modifications ::
  "string \<Rightarrow> nat \<Rightarrow> (nat \<Rightarrow> string) \<Rightarrow> Plan \<Rightarrow> Step \<Rightarrow> ReplanData \<Rightarrow> exn + Plan" where
  "apply_modifications pid now uuids old_plan failed_step replan_data =
     (let strategy = get_or (rd_strategy replan_data) ''retry'';
          modified_steps = rd_modified_steps replan_data
      in case copy_steps (modified_by_id modified_steps) strategy failed_step (steps old_plan) of
           Inl e \<Rightarrow> Inl e
         | Inr copied \<Rightarrow>
             (case (if strategy = ''insert'' then
                      (case insert_steps uuids 0 failed_step modified_steps of
                         Inl e \<Rightarrow> Inl e
                       | Inr ns \<Rightarrow>
                           Inr (map (reset_failed failed_step (map step_id ns)) (copied @ ns)))
                    else Inr copied) of
                Inl e \<Rightarrow> Inl e
              | Inr new_steps \<Rightarrow>
                  Inr \<lparr> plan_id = pid, goal_id = goal_id old_plan,
                        version = version old_plan + 1, is_active = True,
                        steps = new_steps, created_at = now \<rparr>))"

text \<open>\<open>_simple_retry\<close>.\<close>

definition simple_retry_step :: "Step \<Rightarrow> Step \<Rightarrow> Step" where
  "simple_retry_step failed_step s =
     (if step_id s = step_id failed_step then
        (if retry_count s \<ge> max_retries s then
           s \<lparr> status := FAILED,
               error_message := Some (''Hard cap reached: '' @ str_int (retry_count s)
                                        @ '' retries exhausted. Terminating loop.'') \<rparr>
         else
           s \<lparr> status := PENDING, retry_count := retry_count s + 1,
               error_message := None, result_payload := None \<rparr>)
      else s)"

definition simple_retry :: "string \<Rightarrow> nat \<Rightarrow> Plan \<Rightarrow> Step \<Rightarrow> Plan" where
  "simple_retry pid now plan failed_step =
     \<lparr> plan_id = pid, goal_id = goal_id plan, version = version plan + 1, is_active = True,
       steps = map (simple_retry_step failed_step) (steps plan), created_at = now \<rparr>"

text \<open>
  \<open>replan\<close>. \<open>answer\<close> is what the \<open>try\<close> block has obtained when it reaches
  \<open>_apply_modifications\<close>: \<open>Inl\<close> when the generation call, the log append or the parse
  raised, \<open>Inr\<close> the parsed answer otherwise. Any exception, also one raised by
  \<open>_apply_modifications\<close>, is caught and answered by \<open>_simple_retry\<close>. (The prompt is
  formatted before the \<open>try\<close>, from fields that are always present.)
\<close>

definition replan ::
  "string \<Rightarrow> nat \<Rightarrow> (nat \<Rightarrow> string) \<Rightarrow> (exn + ReplanData) \<Rightarrow> Plan \<Rightarrow> Step \<Rightarrow> Plan" where
  "replan pid now uuids answer plan failed_step =
     (case answer of
        Inl e \<Rightarrow> simple_retry pid now plan failed_step
      | Inr replan_data \<Rightarrow>
          (case apply_modifications pid now uuids plan failed_step replan_data of
             Inl e \<Rightarrow> simple_retry pid now plan failed_step
           | Inr new_plan \<Rightarrow> new_plan))"

section \<open>Orchestrator engine (app/orchestrator/engine.py)\<close>

subsection \<open>Goals, evaluations, events\<close>

record Goal =
  g_id :: string
  g_user_id :: string
  raw_input :: string
  parsed_objective :: string
  constraints :: "string list"
  g_status :: GoalStatus
  active_plan_id :: "string option"
  g_created_at :: nat
  g_updated_at :: nat

text \<open>The evaluator's verdict (the floating-point \<open>confidence\<close> is not read by the engine
  and is left out).\<close>

record StepEvaluation =
  ev_step_id :: string
  ev_result :: EvalResult
  reasoning :: string
  suggestions :: "string list"

datatype jval = JStr string | JInt int | JSteps "Step list"

text \<open>A \<open>StreamEvent\<close> (without its timestamp).\<close>

record StreamEvent =
  event_type :: string
  e_goal_id :: string
  e_data :: "(string \<times> jval) list"

definition step_update :: "string \<Rightarrow> string \<Rightarrow> (string \<times> jval) list \<Rightarrow> StreamEvent" where
  "step_update gid sid kvs =
     \<lparr> event_type = ''step_update'', e_goal_id = gid, e_data = (''step_id'', JStr sid) # kvs \<rparr>"

definition plan_created_event :: "string \<Rightarrow> Plan \<Rightarrow> (string \<times> jval) list \<Rightarrow> StreamEvent" where
  "plan_created_event gid plan extra =
     \<lparr> event_type = ''plan_created'', e_goal_id = gid,
       e_data = [(''plan_id'', JStr (plan_id plan)), (''version'', JInt (version plan)),
                 (''steps'', JSteps (steps plan))] @ extra \<rparr>"

definition replanning_event :: "string \<Rightarrow> Step \<Rightarrow> StreamEvent" where
  "replanning_event gid s =
     \<lparr> event_type = ''replanning'', e_goal_id = gid,
       e_data = [(''message'', JStr (''Replanning after step '' @ [CHR 0x27] @ title s
                                     @ [CHR 0x27] @ '' failed''))] \<rparr>"

subsection \<open>The collaborators of the engine\<close>

text \<open>
  The agents answer through language models and tools, and the clock and the uuid
  generator are external too: they are parameters. An agent call is identified by the
  loop iteration and the position of the step in the plan (each step is executed and
  evaluated at most once per iteration, and at most one replan happens per iteration), so
  an agent may answer differently every time it is asked. Each agent may raise. The
  persistence calls of the engine return their argument and do not feed back into the
  control flow; they are assumed not to raise, and the goal row is assumed to exist.
\<close>

record Agents =
  create_plan :: "string \<Rightarrow> string \<Rightarrow> exn + Plan"
  execute_step :: "nat \<Rightarrow> nat \<Rightarrow> Step \<Rightarrow> (string \<rightharpoonup> payload) \<Rightarrow> string \<Rightarrow> exn + payload"
  evaluate :: "nat \<Rightarrow> nat \<Rightarrow> Step \<Rightarrow> payload \<Rightarrow> exn + StepEvaluation"
  replan_answer :: "nat \<Rightarrow> Plan \<Rightarrow> Step \<Rightarrow> StepEvaluation \<Rightarrow> payload \<Rightarrow> exn + ReplanData"
  started_clock :: "nat \<Rightarrow> nat \<Rightarrow> nat"
  completed_clock :: "nat \<Rightarrow> nat \<Rightarrow> nat"
  plan_clock :: "nat \<Rightarrow> nat"
  goal_clock :: "nat \<Rightarrow> nat"
  new_plan_id :: "nat \<Rightarrow> string"
  uuid4 :: "nat \<Rightarrow> nat \<Rightarrow> string"

text \<open>\<open>GoalRepository.update_status\<close> on the stored goal.\<close>

definition update_status :: "nat \<Rightarrow> Goal \<Rightarrow> GoalStatus \<Rightarrow> Goal" where
  "update_status now g st = g \<lparr> g_status := st, g_updated_at := now \<rparr>"

subsection \<open>Step bookkeeping\<close>

text \<open>The steps of a plan are objects mutated in place through the references held in
  \<open>ready_steps\<close>; the model addresses a step by its position in \<open>plan.steps\<close>.\<close>

definition set_step :: "Plan \<Rightarrow> nat \<Rightarrow> Step \<Rightarrow> Plan" where
  "set_step plan i s = plan \<lparr> steps := (steps plan)[i := s] \<rparr>"

definition ready_indices :: "Plan \<Rightarrow> nat list" where
  "ready_indices p =
     filter (\<lambda>i. status (steps p ! i) = PENDING \<and>
                 list_all (\<lambda>dep. dep \<in> completed_ids p) (depends_on (steps p ! i)))
       [0..<length (steps p)]"

text \<open>\<open>_gather_previous_results\<close>: a dictionary from dependency id to the (truthy) result
  payload of a step with that id; a later match overwrites.\<close>

definition gather_previous_results :: "Plan \<Rightarrow> Step \<Rightarrow> (string \<rightharpoonup> payload)" where
  "gather_previous_results plan step =
     fold (\<lambda>dep results.
             fold (\<lambda>s results.
                     (case result_payload s of
                        Some pl \<Rightarrow> if step_id s = dep \<and> pl \<noteq> [] then results(dep \<mapsto> pl) else results
                      | None \<Rightarrow> results))
                  (steps plan) results)
          (depends_on step) Map.empty"

definition mark_in_progress :: "nat \<Rightarrow> Step \<Rightarrow> Step" where
  "mark_in_progress now s = s \<lparr> status := IN_PROGRESS, started_at := Some now \<rparr>"

definition mark_completed :: "nat \<Rightarrow> payload \<Rightarrow> Step \<Rightarrow> Step" where
  "mark_completed now exec_result s =
     s \<lparr> status := COMPLETED, result_payload := Some exec_result, completed_at := Some now \<rparr>"

definition mark_failed :: "StepEvaluation \<Rightarrow> Step \<Rightarrow> Step" where
  "mark_failed evaluation s = s \<lparr> status := FAILED, error_message := Some (reasoning evaluation) \<rparr>"

definition mark_retrying :: "StepEvaluation \<Rightarrow> Step \<Rightarrow> Step" where
  "mark_retrying evaluation s = s \<lparr> status := PENDING, error_message := Some (reasoning evaluation) \<rparr>"

definition completed_event :: "string \<Rightarrow> Step \<Rightarrow> payload \<Rightarrow> StreamEvent" where
  "completed_event gid s exec_result =
     step_update gid (step_id s)
       [(''status'', JStr ''completed''),
        (''result_summary'', JStr (get_or (map_of exec_result ''result_summary'') []))]"

definition failed_event :: "string \<Rightarrow> Step \<Rightarrow> StepEvaluation \<Rightarrow> StreamEvent" where
  "failed_event gid s evaluation =
     step_update gid (step_id s)
       [(''status'', JStr ''failed''), (''error'', JStr (reasoning evaluation))]"

definition retrying_event :: "string \<Rightarrow> Step \<Rightarrow> StreamEvent" where
  "retrying_event gid s =
     step_update gid (step_id s)
       [(''status'', JStr ''retrying''), (''retry_count'', JInt (retry_count s))]"

text \<open>The engine's call of \<open>replanner.replan\<close> in iteration \<open>it\<close>.\<close>

definition call_replan ::
  "Agents \<Rightarrow> nat \<Rightarrow> Plan \<Rightarrow> Step \<Rightarrow> StepEvaluation \<Rightarrow> payload \<Rightarrow> Plan" where
  "call_replan ag it plan failed_step evaluation exec_result =
     replan (new_plan_id ag it) (plan_clock ag it) (uuid4 ag it)
       (replan_answer ag it plan failed_step evaluation exec_result) plan failed_step"

subsection \<open>Sequential path (exactly one ready step)\<close>

text \<open>The result is the events emitted, and either the exception that escaped or the plan
  together with the flag "the loop was left by \<open>break\<close>".\<close>

definition run_sequential ::
  "Agents \<Rightarrow> string \<Rightarrow> string \<Rightarrow> nat \<Rightarrow> Plan \<Rightarrow> nat \<Rightarrow> StreamEvent list \<times> (exn + Plan \<times> bool)" where
  "run_sequential ag gid goal_raw_input it plan i =
     (let s1 = mark_in_progress (started_clock ag it i) (steps plan ! i);
          plan1 = set_step plan i s1;
          evs1 = [step_update gid (step_id s1)
                    [(''status'', JStr ''in_progress''), (''title'', JStr (title s1))]]
      in case execute_step ag it i s1 (gather_previous_results plan1 s1) goal_raw_input of
           Inl e \<Rightarrow> (evs1, Inl e)
         | Inr exec_result \<Rightarrow>
             (let s2 = s1 \<lparr> status := EVALUATING \<rparr>;
                  evs2 = evs1 @ [step_update gid (step_id s2) [(''status'', JStr ''evaluating'')]]
              in case evaluate ag it i s2 exec_result of
                   Inl e \<Rightarrow> (evs2, Inl e)
                 | Inr evaluation \<Rightarrow>
                     if ev_result evaluation = SUCCESS then
                       (let s3 = mark_completed (completed_clock ag it i) exec_result s2
                        in (evs2 @ [completed_event gid s3 exec_result],
                            Inr (set_step plan1 i s3, False)))
                     else
                       (let s3 = s2 \<lparr> retry_count := retry_count s2 + 1 \<rparr>
                        in if retry_count s3 \<ge> max_retries s3 then
                             (let s4 = mark_failed evaluation s3;
                                  plan4 = set_step plan1 i s4;
                                  new_plan = call_replan ag it plan4 s4 evaluation exec_result
                              in (evs2 @ [failed_event gid s4 evaluation,
                                          replanning_event gid s4,
                                          plan_created_event gid new_plan
                                            [(''message'', JStr ''Plan updated after failure recovery'')]],
                                  Inr (new_plan, True)))
                           else
                             (let s4 = mark_retrying evaluation s3
                              in (evs2 @ [retrying_event gid s4],
                                  Inr (set_step plan1 i s4, False))))))"

subsection \<open>Parallel path (more than one ready step)\<close>

text \<open>\<open>execute_single_step\<close> for each ready step, gathered: every step of the batch is
  marked in progress, then executed. An exception of the executor is returned in place of
  the result (\<open>return_exceptions=True\<close>).\<close>

definition start_step :: "Agents \<Rightarrow> nat \<Rightarrow> nat \<Rightarrow> Plan \<Rightarrow> Plan" where
  "start_step ag it i plan = set_step plan i (mark_in_progress (started_clock ag it i) (steps plan ! i))"

definition start_batch :: "Agents \<Rightarrow> nat \<Rightarrow> nat list \<Rightarrow> Plan \<Rightarrow> Plan" where
  "start_batch ag it ready plan = fold (start_step ag it) ready plan"

definition gather_batch ::
  "Agents \<Rightarrow> string \<Rightarrow> nat \<Rightarrow> nat list \<Rightarrow> Plan \<Rightarrow> (nat \<times> (exn + payload)) list" where
  "gather_batch ag goal_raw_input it ready plan1 =
     map (\<lambda>i. (i, execute_step ag it i (steps plan1 ! i)
                      (gather_previous_results plan1 (steps plan1 ! i)) goal_raw_input)) ready"

text \<open>The state of the loop over \<open>parallel_results\<close>: the plan, \<open>needs_replan\<close>, and the
  variables \<open>evaluation\<close> and \<open>exec_result\<close>, which keep the values of the last result that
  was not an exception.\<close>

record batch_state =
  b_plan :: Plan
  b_needs_replan :: bool
  b_last :: "(StepEvaluation \<times> payload) option"

definition settle_one ::
  "Agents \<Rightarrow> string \<Rightarrow> nat \<Rightarrow> batch_state \<Rightarrow> nat \<Rightarrow> payload \<Rightarrow> StreamEvent list \<times> (exn + batch_state)" where
  "settle_one ag gid it st i exec_result =
     (let s1 = (steps (b_plan st) ! i) \<lparr> status := EVALUATING \<rparr>;
          evs1 = [step_update gid (step_id s1) [(''status'', JStr ''evaluating'')]]
      in case evaluate ag it i s1 exec_result of
           Inl e \<Rightarrow> (evs1, Inl e)
         | Inr evaluation \<Rightarrow>
             if ev_result evaluation = SUCCESS then
               (let s2 = mark_completed (completed_clock ag it i) exec_result s1
                in (evs1 @ [completed_event gid s2 exec_result],
                    Inr (st \<lparr> b_plan := set_step (b_plan st) i s2,
                              b_last := Some (evaluation, exec_result) \<rparr>)))
             else
               (let s2 = s1 \<lparr> retry_count := retry_count s1 + 1 \<rparr>
                in if retry_count s2 \<ge> max_retries s2 then
                     (let s3 = mark_failed evaluation s2
                      in (evs1 @ [failed_event gid s3 evaluation],
                          Inr \<lparr> b_plan = set_step (b_plan st) i s3, b_needs_replan = True,
                                b_last = Some (evaluation, exec_result) \<rparr>))
                   else
                     (let s3 = mark_retrying evaluation s2
                      in (evs1 @ [retrying_event gid s3],
                          Inr (st \<lparr> b_plan := set_step (b_plan st) i s3,
                                    b_last := Some (evaluation, exec_result) \<rparr>)))))"

fun settle_results ::
  "Agents \<Rightarrow> string \<Rightarrow> nat \<Rightarrow> batch_state \<Rightarrow> (nat \<times> (exn + payload)) list
     \<Rightarrow> StreamEvent list \<times> (exn + batch_state)" where
  "settle_results ag gid it st [] = ([], Inr st)"
| "settle_results ag gid it st ((i, Inl e) # rs) = settle_results ag gid it st rs"
| "settle_results ag gid it st ((i, Inr exec_result) # rs) =
     (case settle_one ag gid it st i exec_result of
        (evs, Inl e) \<Rightarrow> (evs, Inl e)
      | (evs, Inr st') \<Rightarrow>
          (case settle_results ag gid it st' rs of (evs', r) \<Rightarrow> (evs @ evs', r)))"

text \<open>The block under \<open>if needs_replan\<close>: the first step of \<open>ready_steps\<close> that is failed is
  replanned, with the evaluation and execution result left over from the loop.\<close>

definition replan_batch ::
  "Agents \<Rightarrow> string \<Rightarrow> nat \<Rightarrow> nat list \<Rightarrow> batch_state \<Rightarrow> StreamEvent list \<times> Plan" where
  "replan_batch ag gid it ready st =
     (if b_needs_replan st then
        (case (find (\<lambda>i. status (steps (b_plan st) ! i) = FAILED) ready, b_last st) of
           (Some i, Some (evaluation, exec_result)) \<Rightarrow>
             (let failed_step = steps (b_plan st) ! i;
                  new_plan = call_replan ag it (b_plan st) failed_step evaluation exec_result
              in ([replanning_event gid failed_step,
                   plan_created_event gid new_plan
                     [(''message'', JStr ''Plan updated after failure recovery'')]],
                  new_plan))
         | _ \<Rightarrow> ([], b_plan st))
      else ([], b_plan st))"

definition run_parallel ::
  "Agents \<Rightarrow> string \<Rightarrow> string \<Rightarrow> nat \<Rightarrow> Plan \<Rightarrow> nat list \<Rightarrow> StreamEvent list \<times> (exn + Plan)" where
  "run_parallel ag gid goal_raw_input it plan ready =
     (let plan1 = start_batch ag it ready plan;
          evs1 = map (\<lambda>i. step_update gid (step_id (steps plan1 ! i))
                            [(''status'', JStr ''in_progress''),
                             (''title'', JStr (title (steps plan1 ! i)))]) ready;
          parallel_results = gather_batch ag goal_raw_input it ready plan1
      in case settle_results ag gid it
                \<lparr> b_plan = plan1, b_needs_replan = False, b_last = None \<rparr> parallel_results of
           (evs2, Inl e) \<Rightarrow> (evs1 @ evs2, Inl e)
         | (evs2, Inr st) \<Rightarrow>
             (case replan_batch ag gid it ready st of
                (evs3, plan') \<Rightarrow> (evs1 @ evs2 @ evs3, Inr plan')))"

subsection \<open>\<open>_execute_plan\<close>\<close>

definition max_plan_iterations :: nat where
  "max_plan_iterations = 5"

text \<open>One round of the \<open>while\<close> loop; \<open>it\<close> is the value of \<open>iteration\<close> after its
  increment.\<close>

definition loop_body ::
  "Agents \<Rightarrow> string \<Rightarrow> string \<Rightarrow> nat \<Rightarrow> Plan \<Rightarrow> StreamEvent list \<times> (exn + Plan \<times> bool)" where
  "loop_body ag gid goal_raw_input it plan =
     (let ready = ready_indices plan
      in if ready = [] then ([], Inr (plan, True))
         else if length ready > 1 then
           (case run_parallel ag gid goal_raw_input it plan ready of
              (evs, Inl e) \<Rightarrow> (evs, Inl e)
            | (evs, Inr plan') \<Rightarrow> (evs, Inr (plan', False)))
         else run_sequential ag gid goal_raw_input it plan (hd ready))"

function execute_plan_from ::
  "Agents \<Rightarrow> string \<Rightarrow> string \<Rightarrow> nat \<Rightarrow> Plan \<Rightarrow> StreamEvent list \<times> (exn + Plan)" where
  "execute_plan_from ag gid goal_raw_input iteration plan =
     (if \<not> is_complete plan \<and> iteration < max_plan_iterations then
        (case loop_body ag gid goal_raw_input (iteration + 1) plan of
           (evs, Inl e) \<Rightarrow> (evs, Inl e)
         | (evs, Inr (plan', brk)) \<Rightarrow>
             if brk then (evs, Inr plan')
             else (case execute_plan_from ag gid goal_raw_input (iteration + 1) plan' of
                     (evs', r) \<Rightarrow> (evs @ evs', r)))
      else ([], Inr plan))"
  by pat_completeness auto
termination
  by (relation "measure (\<lambda>(ag, gid, goal_raw_input, iteration, plan). max_plan_iterations - iteration)")
     auto

definition execute_plan ::
  "Agents \<Rightarrow> Plan \<Rightarrow> string \<Rightarrow> string \<Rightarrow> StreamEvent list \<times> (exn + Plan)" where
  "execute_plan ag plan gid goal_raw_input = execute_plan_from ag gid goal_raw_input 0 plan"

subsection \<open>\<open>process_goal\<close>\<close>

text \<open>\<open>str.upper\<close> and \<open>str.lower\<close> on ASCII letters, and the substring test \<open>sub in s\<close>.\<close>

definition ascii_upper :: "char \<Rightarrow> char" where
  "ascii_upper c =
     (if (97::nat) \<le> of_char c \<and> of_char c \<le> (122::nat) then char_of (of_char c - (32::nat)) else c)"

definition ascii_lower :: "char \<Rightarrow> char" where
  "ascii_lower c =
     (if (65::nat) \<le> of_char c \<and> of_char c \<le> (90::nat) then char_of (of_char c + (32::nat)) else c)"

definition upper :: "string \<Rightarrow> string" where
  "upper s = map ascii_upper s"

definition lower :: "string \<Rightarrow> string" where
  "lower s = map ascii_lower s"

fun startswith :: "string \<Rightarrow> string \<Rightarrow> bool" where
  "startswith s [] = True"
| "startswith [] (p # ps) = False"
| "startswith (c # cs) (p # ps) = (c = p \<and> startswith cs ps)"

fun contains :: "string \<Rightarrow> string \<Rightarrow> bool" where
  "contains [] sub = (sub = [])"
| "contains (c # cs) sub = (startswith (c # cs) sub \<or> contains cs sub)"

text \<open>
  The \<open>Step\<close> constructor as the demo branch calls it, with the keyword arguments
  \<open>step_id\<close>, \<open>title\<close>, \<open>description\<close>, \<open>expected_outcome\<close> and \<open>status\<close>. The model
  declares \<open>title\<close>, \<open>description\<close> and \<open>expected_outcome\<close> without a default, so
  Pydantic raises \<open>ValidationError\<close> when one of them is not passed (its message is
  abbreviated here to the names of the missing fields).
\<close>

definition Step_init ::
  "string \<Rightarrow> string option \<Rightarrow> string option \<Rightarrow> string option \<Rightarrow> StepStatus \<Rightarrow> exn + Step" where
  "Step_init sid t d eo st =
     (case (t, d, eo) of
        (Some t', Some d', Some eo') \<Rightarrow> Inr ((new_step sid t' d' eo') \<lparr> status := st \<rparr>)
      | _ \<Rightarrow>
          Inl (Exn ''ValidationError''
                 (''validation errors for Step: missing''
                  @ (if t = None then '' title'' else [])
                  @ (if d = None then '' description'' else [])
                  @ (if eo = None then '' expected_outcome'' else []))))"

definition goal_event :: "string \<Rightarrow> string \<Rightarrow> (string \<times> jval) list \<Rightarrow> StreamEvent" where
  "goal_event ty gid kvs = \<lparr> event_type = ty, e_goal_id = gid, e_data = kvs \<rparr>"

text \<open>The outermost \<open>except Exception\<close> handler of \<open>process_goal\<close>.\<close>

definition on_exception :: "Agents \<Rightarrow> StreamEvent list \<Rightarrow> Goal \<Rightarrow> exn \<Rightarrow> StreamEvent list \<times> Goal" where
  "on_exception ag evs goal e =
     (evs @ [goal_event ''error'' (g_id goal)
               [(''error'', JStr (exn_str e)), (''component'', JStr ''orchestrator'')]],
      update_status (goal_clock ag 3) goal GOAL_FAILED)"

text \<open>The loop of the demo branch over the steps of the mock plan.\<close>

fun demo_steps :: "string \<Rightarrow> Step list \<Rightarrow> StreamEvent list \<times> Step list" where
  "demo_steps gid [] = ([], [])"
| "demo_steps gid (s # ss) =
     (case demo_steps gid ss of
        (evs, ss') \<Rightarrow>
          (step_update gid (step_id s) [(''status'', JStr ''in_progress'')]
             # step_update gid (step_id s) [(''status'', JStr ''completed'')] # evs,
           (s \<lparr> status := COMPLETED \<rparr>) # ss'))"

text \<open>The branch taken when the upper-cased input contains \<open>DEMO-SAFE-001\<close>. The list of
  steps is built before the \<open>Plan\<close>, so the first \<open>Step(...)\<close> call comes first.\<close>

definition demo_safe_mode :: "Agents \<Rightarrow> Goal \<Rightarrow> StreamEvent list \<times> Goal" where
  "demo_safe_mode ag goal0 =
     (let goal = update_status (goal_clock ag 0) goal0 PLANNING;
          evs1 = [goal_event ''goal_status'' (g_id goal) [(''status'', JStr ''planning'')]]
      in case Step_init ''safe_1'' (Some ''Simulated Fetch'') None None PENDING of
           Inl e \<Rightarrow> on_exception ag evs1 goal e
         | Inr step1 \<Rightarrow>
             (case Step_init ''safe_2'' (Some ''Simulated Schedule'') None None PENDING of
                Inl e \<Rightarrow> on_exception ag evs1 goal e
              | Inr step2 \<Rightarrow>
                  (let plan = \<lparr> plan_id = new_plan_id ag 0, goal_id = g_id goal, version = 1,
                                is_active = True, steps = [step1, step2],
                                created_at = plan_clock ag 0 \<rparr>;
                       evs2 = evs1 @ [plan_created_event (g_id goal) plan []]
                   in case demo_steps (g_id goal) (steps plan) of
                        (evs3, done) \<Rightarrow>
                          (let goal' = update_status (goal_clock ag 2) goal GOAL_COMPLETED
                           in (evs2 @ evs3 @ [goal_event ''goal_completed'' (g_id goal')
                                                [(''status'', JStr ''completed'')]],
                               goal')))))"

text \<open>\<open>process_goal\<close>: the events broadcast, in order, and the goal returned.\<close>

definition process_goal :: "Agents \<Rightarrow> Goal \<Rightarrow> StreamEvent list \<times> Goal" where
  "process_goal ag goal0 =
     (if contains (upper (raw_input goal0)) ''DEMO-SAFE-001'' then demo_safe_mode ag goal0
      else
        (let goal = update_status (goal_clock ag 0) goal0 PLANNING;
             evs1 = [goal_event ''goal_status'' (g_id goal)
                       [(''status'', JStr ''planning''),
                        (''message'', JStr ''Decomposing goal into execution plan...'')]]
         in case create_plan ag (g_id goal) (raw_input goal) of
              Inl e \<Rightarrow> on_exception ag evs1 goal e
            | Inr plan \<Rightarrow>
                (let goal2 = (update_status (goal_clock ag 1) goal EXECUTING)
                               \<lparr> active_plan_id := Some (plan_id plan) \<rparr>;
                     evs2 = evs1 @ [plan_created_event (g_id goal2) plan []]
                 in case execute_plan ag plan (g_id goal2) (raw_input goal2) of
                      (evs3, Inl e) \<Rightarrow> on_exception ag (evs2 @ evs3) goal2 e
                    | (evs3, Inr final_plan) \<Rightarrow>
                        if is_complete final_plan then
                          (let goal3 = update_status (goal_clock ag 2) goal2 GOAL_COMPLETED
                           in (evs2 @ evs3 @ [goal_event ''goal_completed'' (g_id goal3)
                                 [(''status'', JStr ''completed''),
                                  (''message'', JStr ''All steps completed successfully'')]],
                               goal3))
                        else
                          (let goal3 = update_status (goal_clock ag 2) goal2 GOAL_FAILED
                           in (evs2 @ evs3 @ [goal_event ''goal_failed'' (g_id goal3)
                                 [(''status'', JStr ''failed''),
                                  (''message'',
                                   JStr ''Goal could not be completed after all retries'')]],
                               goal3)))))"

subsection \<open>Notions used to state the engine's properties\<close>

text \<open>
  The verdict of one attempt: what executor and evaluator answer for the step at position
  \<open>i\<close> of a plan whose ready steps have been marked in progress (\<open>Inl\<close> when one of
  them raises). And the step as the engine leaves it after a verdict, which is the
  bookkeeping both paths perform.
\<close>

definition step_verdict ::
  "Agents \<Rightarrow> string \<Rightarrow> nat \<Rightarrow> Plan \<Rightarrow> nat \<Rightarrow> exn + payload \<times> StepEvaluation" where
  "step_verdict ag goal_raw_input it plan1 i =
     (case execute_step ag it i (steps plan1 ! i)
             (gather_previous_results plan1 (steps plan1 ! i)) goal_raw_input of
        Inl e \<Rightarrow> Inl e
      | Inr exec_result \<Rightarrow>
          (case evaluate ag it i ((steps plan1 ! i) \<lparr> status := EVALUATING \<rparr>) exec_result of
             Inl e \<Rightarrow> Inl e
           | Inr evaluation \<Rightarrow> Inr (exec_result, evaluation)))"

definition settled_step :: "Agents \<Rightarrow> nat \<Rightarrow> nat \<Rightarrow> Step \<Rightarrow> payload \<Rightarrow> StepEvaluation \<Rightarrow> Step" where
  "settled_step ag it i s exec_result evaluation =
     (let s1 = s \<lparr> status := EVALUATING \<rparr>
      in if ev_result evaluation = SUCCESS then
           mark_completed (completed_clock ag it i) exec_result s1
         else
           (let s2 = s1 \<lparr> retry_count := retry_count s1 + 1 \<rparr>
            in if retry_count s2 \<ge> max_retries s2 then mark_failed evaluation s2
               else mark_retrying evaluation s2))"

text \<open>
  The retry invariant of a step: a positive ceiling, a counter that does not exceed it,
  and a counter strictly below it while the step is pending (so that one more failure
  reaches the ceiling at most). Every step the planner or the replanner builds satisfies
  it (counter 0, ceiling 3).
\<close>

definition retry_ok :: "Step \<Rightarrow> bool" where
  "retry_ok s \<longleftrightarrow>
     0 < max_retries s \<and> retry_count s \<le> max_retries s
     \<and> (status s = PENDING \<longrightarrow> retry_count s < max_retries s)"

definition retry_inv :: "Plan \<Rightarrow> bool" where
  "retry_inv p \<longleftrightarrow> list_all retry_ok (steps p)"

text \<open>
  The outcome of one round of the loop, for both paths: \<open>p4\<close> is the plan when all ready
  steps are settled (steps that were not ready are untouched, a ready step is left in
  progress when its execution raised and is settled by its verdict otherwise), and
  \<open>plan'\<close> is \<open>p4\<close>, or the replan for a failed ready step of \<open>p4\<close> when there is one.
\<close>

definition batch_shape ::
  "Agents \<Rightarrow> string \<Rightarrow> nat \<Rightarrow> Plan \<Rightarrow> nat list \<Rightarrow> Plan \<Rightarrow> Plan \<Rightarrow> bool" where
  "batch_shape ag ctx it plan ready p4 plan' \<longleftrightarrow>
     length (steps p4) = length (steps plan) \<and> version p4 = version plan
     \<and> (\<forall>j. j \<notin> set ready \<longrightarrow> steps p4 ! j = steps plan ! j)
     \<and> (\<forall>j\<in>set ready.
           (\<exists>e. step_verdict ag ctx it (start_batch ag it ready plan) j = Inl e
                \<and> steps p4 ! j = mark_in_progress (started_clock ag it j) (steps plan ! j))
           \<or> (\<exists>res ev. step_verdict ag ctx it (start_batch ag it ready plan) j = Inr (res, ev)
                \<and> steps p4 ! j = settled_step ag it j
                                    (mark_in_progress (started_clock ag it j) (steps plan ! j)) res ev))
     \<and> ((\<exists>j\<in>set ready. status (steps p4 ! j) = FAILED) \<longrightarrow>
           (\<exists>j\<in>set ready. \<exists>ev' res'. status (steps p4 ! j) = FAILED
                \<and> plan' = call_replan ag it p4 (steps p4 ! j) ev' res'))
     \<and> ((\<forall>j\<in>set ready. status (steps p4 ! j) \<noteq> FAILED) \<longrightarrow> plan' = p4)"

text \<open>The events the execution loop emits are of three types.\<close>

definition engine_event :: "StreamEvent \<Rightarrow> bool" where
  "engine_event e \<longleftrightarrow>
     event_type e = ''step_update'' \<or> event_type e = ''replanning'' \<or> event_type e = ''plan_created''"

section \<open>Generation gateway (app/cognitive/llm/provider.py)\<close>

datatype LLMProvider = OLLAMA | GEMINI | OPENAI

fun provider_value :: "LLMProvider \<Rightarrow> string" where
  "provider_value OLLAMA = ''ollama''"
| "provider_value GEMINI = ''gemini''"
| "provider_value OPENAI = ''openai''"

record AgentLog =
  l_id :: string
  l_goal_id :: string
  l_plan_id :: "string option"
  l_step_id :: "string option"
  agent_type :: string
  provider :: string
  model :: string
  prompt_summary :: string
  response_summary :: string
  tokens_in :: int
  tokens_out :: int
  latency_ms :: int
  l_error :: "string option"
  l_timestamp :: nat

text \<open>A chat model's response: its content and, when present, its usage metadata. An
  invocation returns a response or raises; a raised exception comes with its \<open>repr\<close>,
  which the gateway prints when \<open>str(e)\<close> is empty (as for a timeout).\<close>

record response =
  content :: string
  usage_metadata :: "(string \<times> int) list option"

datatype invoke_result = Returned response | Raised exn string

text \<open>What the gateway does to the outside, in order: invocations of a provider (with the
  attempt number) and sleeps (in seconds).\<close>

datatype action = Invoke LLMProvider nat | Sleep nat

text \<open>The outside of the gateway: whether \<open>_get_or_create\<close> raises for a provider, what the
  \<open>k\<close>-th invocation of a provider does (a timeout of \<open>wait_for\<close> is a raise), the measured
  latency, the configured model names, and the id and timestamp drawn for a log.\<close>

record LLMEnv =
  get_or_create :: "LLMProvider \<Rightarrow> (exn \<times> string) option"
  ainvoke :: "LLMProvider \<Rightarrow> nat \<Rightarrow> invoke_result"
  measured_latency :: "LLMProvider \<Rightarrow> int"
  get_model_name :: "LLMProvider \<Rightarrow> string"
  log_uuid :: string
  log_time :: nat

text \<open>The state a generation call can touch: the gateway's \<open>_active_provider\<close>, the actions
  performed so far, and the \<open>agent_logs\<close> table behind \<open>AgentLogRepository\<close>.\<close>

record World =
  active_provider :: "LLMProvider option"
  actions :: "action list"
  agent_logs :: "AgentLog list"

definition max_retries_per_provider :: nat where
  "max_retries_per_provider = 3"

definition is_rate_limit :: "exn \<Rightarrow> bool" where
  "is_rate_limit invoke_err =
     (let err_str = lower (exn_str invoke_err)
      in contains err_str ''429'' \<or> contains err_str ''resourceexhausted''
         \<or> contains err_str ''too many requests'')"

text \<open>The loop \<open>for attempt in range(max_retries)\<close>: the actions performed and either the
  exception re-raised or the value of \<open>response\<close> after the loop.\<close>

fun attempt_loop ::
  "LLMEnv \<Rightarrow> LLMProvider \<Rightarrow> nat list \<Rightarrow> action list \<times> ((exn \<times> string) + response option)" where
  "attempt_loop env p [] = ([], Inr None)"
| "attempt_loop env p (attempt # rest) =
     (case ainvoke env p attempt of
        Returned r \<Rightarrow> ([Invoke p attempt], Inr (Some r))
      | Raised invoke_err rp \<Rightarrow>
          if is_rate_limit invoke_err \<and> attempt < max_retries_per_provider - 1 then
            (case attempt_loop env p rest of
               (acts, res) \<Rightarrow> (Invoke p attempt # Sleep (5 * (attempt + 1)) # acts, res))
          else ([Invoke p attempt], Inl (invoke_err, rp)))"

definition token_count :: "response option \<Rightarrow> string \<Rightarrow> int" where
  "token_count resp key =
     (case resp of
        None \<Rightarrow> 0
      | Some r \<Rightarrow>
          (case usage_metadata r of
             None \<Rightarrow> 0
           | Some um \<Rightarrow> if um = [] then 0 else get_or (map_of um key) 0))"

text \<open>The body of the \<open>try\<close> for one provider of the chain.\<close>

definition try_provider ::
  "LLMEnv \<Rightarrow> string \<Rightarrow> string \<Rightarrow> string \<Rightarrow> LLMProvider \<Rightarrow> World
     \<Rightarrow> World \<times> ((exn \<times> string) + string \<times> AgentLog)" where
  "try_provider env prompt goal_id' agent_type' p w =
     (case get_or_create env p of
        Some err \<Rightarrow> (w, Inl err)
      | None \<Rightarrow>
          (let w1 = w \<lparr> active_provider := Some p \<rparr>;
               w2 = (if p = GEMINI then w1 \<lparr> actions := actions w1 @ [Sleep 4] \<rparr> else w1)
           in case attempt_loop env p [0..<max_retries_per_provider] of
                (acts, Inl err) \<Rightarrow> (w2 \<lparr> actions := actions w2 @ acts \<rparr>, Inl err)
              | (acts, Inr resp) \<Rightarrow>
                  (let text = (case resp of None \<Rightarrow> ''None'' | Some r \<Rightarrow> content r);
                       log = \<lparr> l_id = log_uuid env, l_goal_id = goal_id', l_plan_id = None,
                               l_step_id = None, agent_type = agent_type',
                               provider = provider_value p, model = get_model_name env p,
                               prompt_summary = take 200 prompt,
                               response_summary = take 300 text,
                               tokens_in = token_count resp ''input_tokens'',
                               tokens_out = token_count resp ''output_tokens'',
                               latency_ms = measured_latency env p,
                               l_error = None, l_timestamp = log_time env \<rparr>
                   in (w2 \<lparr> actions := actions w2 @ acts \<rparr>, Inr (text, log)))))"

text \<open>The code after the loop over the chain: the aggregate error. The \<open>AgentLog\<close> built
  there is bound to a local variable and the function raises.\<close>

definition all_providers_failed ::
  "LLMEnv \<Rightarrow> string \<Rightarrow> string \<Rightarrow> string \<Rightarrow> (exn \<times> string) option \<Rightarrow> exn" where
  "all_providers_failed env prompt goal_id' agent_type' last_error =
     (let error_detail = (case last_error of
                            None \<Rightarrow> ''None''
                          | Some (e, rp) \<Rightarrow> if exn_str e \<noteq> [] then exn_str e else rp);
          error_msg = ''All LLM providers failed. Last error: '' @ error_detail;
          log = \<lparr> l_id = log_uuid env, l_goal_id = goal_id', l_plan_id = None,
                  l_step_id = None, agent_type = agent_type', provider = ''none'',
                  model = ''none'', prompt_summary = take 200 prompt, response_summary = [],
                  tokens_in = 0, tokens_out = 0, latency_ms = 0,
                  l_error = Some error_msg, l_timestamp = log_time env \<rparr>
      in Exn ''RuntimeError'' error_msg)"

fun generate_from ::
  "LLMEnv \<Rightarrow> string \<Rightarrow> string \<Rightarrow> string \<Rightarrow> (exn \<times> string) option \<Rightarrow> LLMProvider list \<Rightarrow> World
     \<Rightarrow> World \<times> (exn + string \<times> AgentLog)" where
  "generate_from env prompt goal_id' agent_type' last_error [] w =
     (w, Inl (all_providers_failed env prompt goal_id' agent_type' last_error))"
| "generate_from env prompt goal_id' agent_type' last_error (p # ps) w =
     (case try_provider env prompt goal_id' agent_type' p w of
        (w', Inl err) \<Rightarrow> generate_from env prompt goal_id' agent_type' (Some err) ps w'
      | (w', Inr res) \<Rightarrow> (w', Inr res))"

text \<open>\<open>LLMGateway.generate\<close> over the gateway's \<open>_fallback_chain\<close>.\<close>

definition generate ::
  "LLMEnv \<Rightarrow> LLMProvider list \<Rightarrow> string \<Rightarrow> string \<Rightarrow> string \<Rightarrow> World
     \<Rightarrow> World \<times> (exn + string \<times> AgentLog)" where
  "generate env fallback_chain prompt goal_id' agent_type' w =
     generate_from env prompt goal_id' agent_type' None fallback_chain w"

text \<open>How the agents use the gateway (here the replanner, lines 111 to 119): the log
  returned by a successful call is completed and appended to the table; when \<open>generate\<close>
  raises, the statements after it are skipped.\<close>

definition replanner_generate ::
  "LLMEnv \<Rightarrow> LLMProvider list \<Rightarrow> string \<Rightarrow> string \<Rightarrow> Plan \<Rightarrow> Step \<Rightarrow> World
     \<Rightarrow> World \<times> (exn + string)" where
  "replanner_generate env fallback_chain prompt goal_id' plan failed_step w =
     (case generate env fallback_chain prompt goal_id' ''replanner'' w of
        (w', Inl e) \<Rightarrow> (w', Inl e)
      | (w', Inr (result_text, log)) \<Rightarrow>
          (w' \<lparr> agent_logs := agent_logs w' @
                  [log \<lparr> l_plan_id := Some (plan_id plan),
                         l_step_id := Some (step_id failed_step) \<rparr>] \<rparr>,
           Inr result_text))"

text \<open>Two notions used to state the properties of the gateway: the number of
  invocations the retry loop makes for a provider, and the exception with which a
  provider's turn ends (\<open>None\<close> when it answers).\<close>

definition attempts_made :: "LLMEnv \<Rightarrow> LLMProvider \<Rightarrow> nat" where
  "attempts_made env p =
     (case ainvoke env p 0 of
        Returned r \<Rightarrow> 1
      | Raised e0 rp0 \<Rightarrow>
          if \<not> is_rate_limit e0 then 1
          else (case ainvoke env p 1 of
                  Returned r \<Rightarrow> 2
                | Raised e1 rp1 \<Rightarrow> if \<not> is_rate_limit e1 then 2 else 3))"

definition provider_outcome :: "LLMEnv \<Rightarrow> LLMProvider \<Rightarrow> (exn \<times> string) option" where
  "provider_outcome env p =
     (case get_or_create env p of
        Some err \<Rightarrow> Some err
      | None \<Rightarrow>
          (case snd (attempt_loop env p [0..<max_retries_per_provider]) of
             Inl err \<Rightarrow> Some err
           | Inr resp \<Rightarrow> None))"

section \<open>Capability gateway (app/tools/registry.py)\<close>

text \<open>
  The registry is a Python dictionary; an association list in insertion order stands for
  it. A handler is identified by a number. An entry is a dictionary of four keys, so the
  test \<open>if not tool\<close> of \<open>execute_tool\<close> is true exactly when the name has no entry.
\<close>

record Tool =
  tool_name :: string
  tool_description :: string
  handler :: nat
  parameters :: "(string \<times> string) list"

type_synonym registry = "(string \<times> Tool) list"

text \<open>
  Two \<open>except\<close> clauses of the repository tell exception classes apart, so a raise that
  reaches them carries where its class stands: it is \<open>asyncio.TimeoutError\<close> (or a
  subclass), it is another subclass of \<open>Exception\<close>, or it lies outside \<open>Exception\<close>
  (\<open>asyncio.CancelledError\<close>, \<open>KeyboardInterrupt\<close>, \<open>SystemExit\<close> and \<open>GeneratorExit\<close> derive
  from \<open>BaseException\<close> only). \<open>asyncio.TimeoutError\<close> is itself a subclass of \<open>Exception\<close>.
\<close>

datatype exc_class = TimeoutErrorClass | ExceptionClass | BaseExceptionClass


definition isinstance_Exception :: "exc_class \<Rightarrow> bool" where
  "isinstance_Exception c = (c = TimeoutErrorClass \<or> c = ExceptionClass)"






text \<open>What leaves \<open>execute_tool\<close> as an exception: the plain \<open>ValueError\<close> of the lookup with
  its message, a \<open>ToolExecutionError\<close> with its message and its \<open>payload\<close> dictionary, or an
  exception that no clause of the function handles and that propagates as it was
  raised.\<close>

datatype tool_exn =
  ValueError string
| ToolExecutionError string "(string \<times> string) list"
| Unhandled exn



definition get_tool_by_name :: "registry \<Rightarrow> string \<Rightarrow> Tool option" where
  "get_tool_by_name reg name = map_of reg name"









section \<open>Event bus (the listeners of the orchestrator and its broadcast)\<close>

text \<open>
  Listeners are callables; a number identifies each. What a listener does when it is
  called is a parameter \<open>react\<close>: given the event and the listener list at that moment it
  registers and removes listeners (the other methods of the bus, which it may call) and
  then returns or raises an exception, given with the standing of its class. The bus
  records every call of a listener in \<open>delivered\<close> and every warning it logs in
  \<open>warnings\<close>.
\<close>

datatype bus_op = Add nat | Remove nat

record Bus =
  event_listeners :: "nat list"
  delivered :: "(nat \<times> StreamEvent) list"
  warnings :: "string list"

type_synonym reaction = "nat \<Rightarrow> StreamEvent \<Rightarrow> nat list \<Rightarrow> bus_op list \<times> (exc_class \<times> exn) option"

definition add_event_listener :: "nat \<Rightarrow> Bus \<Rightarrow> Bus" where
  "add_event_listener l b = b \<lparr> event_listeners := event_listeners b @ [l] \<rparr>"

definition remove_event_listener :: "nat \<Rightarrow> Bus \<Rightarrow> Bus" where
  "remove_event_listener l b =
     (if l \<in> set (event_listeners b) then b \<lparr> event_listeners := remove1 l (event_listeners b) \<rparr>
      else b)"

fun bus_apply :: "bus_op \<Rightarrow> Bus \<Rightarrow> Bus" where
  "bus_apply (Add l) b = add_event_listener l b"
| "bus_apply (Remove l) b = remove_event_listener l b"

text \<open>Calling one listener: the call is recorded, the listener's operations on the bus
  take effect, and the call returns or raises.\<close>

definition call_listener ::
  "reaction \<Rightarrow> StreamEvent \<Rightarrow> nat \<Rightarrow> Bus \<Rightarrow> Bus \<times> ((exc_class \<times> exn) + unit)" where
  "call_listener react event l b =
     (case react l event (event_listeners b) of
        (ops, raised) \<Rightarrow>
          (fold bus_apply ops (b \<lparr> delivered := delivered b @ [(l, event)] \<rparr>),
           (case raised of None \<Rightarrow> Inr () | Some ce \<Rightarrow> Inl ce)))"

text \<open>
  The loop \<open>for listener in listeners\<close> with its \<open>try\<close>/\<open>except Exception\<close> body. An
  exception of a listener that is an \<open>Exception\<close> is logged and the loop goes on; any other
  exception has no clause, ends the loop and leaves \<open>_broadcast\<close>. The result is the bus as
  it then is, with the exception that escaped, if any.
\<close>

fun broadcast_loop ::
  "reaction \<Rightarrow> StreamEvent \<Rightarrow> nat list \<Rightarrow> Bus \<Rightarrow> Bus \<times> (exn + unit)" where
  "broadcast_loop react event [] b = (b, Inr ())"
| "broadcast_loop react event (l # ls) b =
     (case call_listener react event l b of
        (b', Inl (c, e)) \<Rightarrow>
          if isinstance_Exception c then
            broadcast_loop react event ls
              (b' \<lparr> warnings := warnings b' @ [''broadcast_error error='' @ exn_str e] \<rparr>)
          else (b', Inl e)
      | (b', Inr u) \<Rightarrow> broadcast_loop react event ls b')"

text \<open>\<open>_broadcast\<close>: the copy \<open>list(self._event_listeners)\<close> is taken first.\<close>

definition broadcast :: "reaction \<Rightarrow> StreamEvent \<Rightarrow> Bus \<Rightarrow> Bus \<times> (exn + unit)" where
  "broadcast react event b = broadcast_loop react event (event_listeners b) b"

section \<open>Example data\<close>

text \<open>A plan of three steps: \<open>a\<close> is completed, \<open>b\<close> has failed at its ceiling, \<open>c\<close> waits
  for \<open>b\<close>.\<close>

definition ex_failed :: Step where
  "ex_failed =
     (new_step ''b'' ''Assess difficulty'' ''Rate each topic'' ''Scores per topic'')
       \<lparr> depends_on := [''a''], status := FAILED, error_message := Some ''no scores'',
         retry_count := 3 \<rparr>"

definition ex_plan :: Plan where
  "ex_plan =
     \<lparr> plan_id = ''p1'', goal_id = ''g1'', version = 1, is_active = True,
       steps = [(new_step ''a'' ''Analyze syllabus'' ''Extract subjects'' ''Subject list'')
                  \<lparr> status := COMPLETED, result_payload := Some [(''result_summary'', ''ok'')],
                    started_at := Some 1, completed_at := Some 2 \<rparr>,
                ex_failed,
                (new_step ''c'' ''Create schedule'' ''Weekly plan'' ''Schedule'')
                  \<lparr> depends_on := [''b''] \<rparr>],
       created_at = 0 \<rparr>"

text \<open>A plan in which the model gave the same id to two steps: the first is completed,
  the second has failed at its ceiling.\<close>

definition ex_twin_failed :: Step where
  "ex_twin_failed =
     (new_step ''s1'' ''Assess difficulty'' ''Rate each topic'' ''Scores per topic'')
       \<lparr> status := FAILED, error_message := Some ''no scores'', retry_count := 3 \<rparr>"

definition ex_twin_plan :: Plan where
  "ex_twin_plan =
     \<lparr> plan_id = ''p1'', goal_id = ''g1'', version = 1, is_active = True,
       steps = [(new_step ''s1'' ''Analyze syllabus'' ''Extract subjects'' ''Subject list'')
                  \<lparr> status := COMPLETED, result_payload := Some [(''result_summary'', ''ok'')],
                    started_at := Some 1, completed_at := Some 2 \<rparr>,
                ex_twin_failed],
       created_at = 0 \<rparr>"

text \<open>An \<open>insert\<close> answer that also tries to edit the completed step \<open>a\<close>.\<close>

definition ex_answer :: ReplanData where
  "ex_answer =
     \<lparr> rd_strategy = Some ''insert'', rd_reasoning = Some ''add a recovery step'',
       rd_modified_steps =
         [\<lparr> ms_step_id = Some ''a'', ms_title = Some ''Changed'', ms_description = None,
            ms_expected_outcome = None, ms_thought_process = None, ms_priority = None,
            ms_depends_on = None, ms_required_tools = None, ms_is_new = False \<rparr>,
          \<lparr> ms_step_id = Some ''r1'', ms_title = Some ''Recover'', ms_description = None,
            ms_expected_outcome = None, ms_thought_process = None, ms_priority = Some ''low'',
            ms_depends_on = None, ms_required_tools = None, ms_is_new = True \<rparr>] \<rparr>"

text \<open>A gateway outside where the first provider refuses the connection and the second
  is rate limited twice before it answers; and one where every provider fails, the last
  of the chain by a timeout (whose \<open>str\<close> is empty).\<close>

definition ex_env :: LLMEnv where
  "ex_env =
     \<lparr> get_or_create = (\<lambda>p. None),
       ainvoke = (\<lambda>p k. if p = OLLAMA then Raised (Exn ''ConnectError'' ''connection refused'')
                                               ''ConnectError('connection refused')''
                         else if p = GEMINI \<and> k < 2 then
                           Raised (Exn ''ResourceExhausted'' ''429 Too Many Requests'')
                                  ''ResourceExhausted('429 Too Many Requests')''
                         else Returned \<lparr> content = ''{}'', usage_metadata = None \<rparr>),
       measured_latency = (\<lambda>p. 120),
       get_model_name = (\<lambda>p. ''m''),
       log_uuid = ''log-1'', log_time = 5 \<rparr>"

definition ex_env_down :: LLMEnv where
  "ex_env_down =
     \<lparr> get_or_create = (\<lambda>p. if p = OPENAI then Some (Exn ''ValueError'' ''missing api key'',
                                                        ''ValueError('missing api key')'')
                              else None),
       ainvoke = (\<lambda>p k. if p = OLLAMA then Raised (Exn ''ConnectError'' ''connection refused'')
                                               ''ConnectError('connection refused')''
                         else Raised (Exn ''TimeoutError'' []) ''TimeoutError()''),
       measured_latency = (\<lambda>p. 120),
       get_model_name = (\<lambda>p. ''m''),
       log_uuid = ''log-1'', log_time = 5 \<rparr>"

definition ex_world :: World where
  "ex_world = \<lparr> active_provider = None, actions = [], agent_logs = [] \<rparr>"

text \<open>Goals and collaborators for the engine: a goal that asks for the demo mode and an
  ordinary one; agents whose evaluator rejects every result and whose replanner cannot
  be reached; and agents whose evaluator accepts every result.\<close>

definition ex_demo_goal :: Goal where
  "ex_demo_goal =
     \<lparr> g_id = ''g1'', g_user_id = ''u1'', raw_input = ''Run demo-safe-001 now'',
       parsed_objective = [], constraints = [], g_status = RECEIVED, active_plan_id = None,
       g_created_at = 0, g_updated_at = 0 \<rparr>"

definition ex_goal :: Goal where
  "ex_goal =
     \<lparr> g_id = ''g1'', g_user_id = ''u1'', raw_input = ''Prepare for GATE in 4 weeks'',
       parsed_objective = [], constraints = [], g_status = RECEIVED, active_plan_id = None,
       g_created_at = 0, g_updated_at = 0 \<rparr>"

definition ex_agents :: Agents where
  "ex_agents =
     \<lparr> create_plan = (\<lambda>gid inp. Inr (ex_plan \<lparr> goal_id := gid \<rparr>)),
       execute_step = (\<lambda>it i s prev ctx. Inr [(''result_summary'', ''done'')]),
       evaluate = (\<lambda>it i s res.
                     Inr \<lparr> ev_step_id = step_id s, ev_result = FAILURE,
                           reasoning = ''not good enough'', suggestions = [] \<rparr>),
       replan_answer = (\<lambda>it p s ev res. Inl (Exn ''RuntimeError'' ''All LLM providers failed. Last error: TimeoutError()'')),
       started_clock = (\<lambda>it i. 10 * it), completed_clock = (\<lambda>it i. 10 * it + 1),
       plan_clock = (\<lambda>it. 10 * it + 2), goal_clock = (\<lambda>k. 100 + k),
       new_plan_id = (\<lambda>it. ''plan-v''), uuid4 = (\<lambda>it k. ''0123456789'') \<rparr>"

definition ex_good_plan :: Plan where
  "ex_good_plan =
     \<lparr> plan_id = ''p1'', goal_id = ''g1'', version = 1, is_active = True,
       steps = [new_step ''a'' ''Analyze syllabus'' ''Extract subjects'' ''Subject list'',
                (new_step ''c'' ''Create schedule'' ''Weekly plan'' ''Schedule'')
                  \<lparr> depends_on := [''a''] \<rparr>],
       created_at = 0 \<rparr>"

definition ex_good_agents :: Agents where
  "ex_good_agents =
     ex_agents \<lparr> create_plan := (\<lambda>gid inp. Inr ex_good_plan),
                 evaluate := (\<lambda>it i s res.
                     Inr \<lparr> ev_step_id = step_id s, ev_result = SUCCESS,
                           reasoning = ''fine'', suggestions = [] \<rparr>) \<rparr>"

text \<open>Two plans whose second step is ready: with all its retries left, and with one
  retry left.\<close>

definition ex_fresh_plan :: Plan where
  "ex_fresh_plan =
     \<lparr> plan_id = ''p1'', goal_id = ''g1'', version = 1, is_active = True,
       steps = [(new_step ''a'' ''Analyze syllabus'' ''Extract subjects'' ''Subject list'')
                  \<lparr> status := COMPLETED, result_payload := Some [(''result_summary'', ''ok'')] \<rparr>,
                (new_step ''b'' ''Assess difficulty'' ''Rate each topic'' ''Scores per topic'')
                  \<lparr> depends_on := [''a''] \<rparr>],
       created_at = 0 \<rparr>"

definition ex_last_try_plan :: Plan where
  "ex_last_try_plan =
     \<lparr> plan_id = ''p1'', goal_id = ''g1'', version = 1, is_active = True,
       steps = [(new_step ''a'' ''Analyze syllabus'' ''Extract subjects'' ''Subject list'')
                  \<lparr> status := COMPLETED, result_payload := Some [(''result_summary'', ''ok'')] \<rparr>,
                (new_step ''b'' ''Assess difficulty'' ''Rate each topic'' ''Scores per topic'')
                  \<lparr> depends_on := [''a''], retry_count := 2 \<rparr>],
       created_at = 0 \<rparr>"

text \<open>A fresh plan in which the model gave the same id to its first two steps; the second
  of them waits for the third step. The evaluator accepts the results of step \<open>s2\<close> and
  rejects all others, and the replanner cannot be reached.\<close>

definition ex_dup_plan :: Plan where
  "ex_dup_plan =
     \<lparr> plan_id = ''p1'', goal_id = ''g1'', version = 1, is_active = True,
       steps = [new_step ''s1'' ''Analyze syllabus'' ''Extract subjects'' ''Subject list'',
                (new_step ''s1'' ''Assess difficulty'' ''Rate each topic'' ''Scores per topic'')
                  \<lparr> depends_on := [''s2''] \<rparr>,
                new_step ''s2'' ''Fetch resources'' ''Query the API'' ''Links per topic''],
       created_at = 0 \<rparr>"

definition ex_dup_agents :: Agents where
  "ex_dup_agents =
     ex_agents \<lparr> create_plan := (\<lambda>gid inp. Inr ex_dup_plan),
                 evaluate := (\<lambda>it i s res.
                     Inr \<lparr> ev_step_id = step_id s,
                           ev_result = (if step_id s = ''s2'' then SUCCESS else FAILURE),
                           reasoning = ''not good enough'', suggestions = [] \<rparr>) \<rparr>"

text \<open>A fresh plan in which the model gave both steps the same id and made the second
  depend on that id, with agents whose evaluator accepts the results of the first step of
  the plan only and whose replanner cannot be reached.\<close>

definition ex_twin_fresh_plan :: Plan where
  "ex_twin_fresh_plan =
     \<lparr> plan_id = ''p1'', goal_id = ''g1'', version = 1, is_active = True,
       steps = [new_step ''s1'' ''Analyze syllabus'' ''Extract subjects'' ''Subject list'',
                (new_step ''s1'' ''Assess difficulty'' ''Rate each topic'' ''Scores per topic'')
                  \<lparr> depends_on := [''s1''] \<rparr>],
       created_at = 0 \<rparr>"

definition ex_twin_agents :: Agents where
  "ex_twin_agents =
     ex_agents \<lparr> create_plan := (\<lambda>gid inp. Inr ex_twin_fresh_plan),
                 evaluate := (\<lambda>it i s res.
                     Inr \<lparr> ev_step_id = step_id s,
                           ev_result = (if i = 0 then SUCCESS else FAILURE),
                           reasoning = ''not good enough'', suggestions = [] \<rparr>) \<rparr>"

section \<open>Proof setup\<close>

text \<open>The defining equation of the loop is unfolded by hand, one round at a time.\<close>

declare execute_plan_from.simps [simp del]

section \<open>Plan graph model: readiness\<close>

lemma mem_completed_ids:
  "d \<in> completed_ids p \<longleftrightarrow>
     (\<exists>t\<in>set (steps p). step_id t = d \<and> (status t = COMPLETED \<or> status t = SKIPPED))"
  by (auto simp: completed_ids_def)

text \<open>
  Claim C1. \<open>get_ready_steps\<close> returns, in plan order, exactly the steps that are pending
  and whose every dependency id names a step of the same plan that is completed or
  skipped; a step with a dependency id that names no step of the plan is never returned.
\<close>

theorem get_ready_steps_exact:
  "get_ready_steps p =
     filter (\<lambda>s. status s = PENDING \<and>
                 (\<forall>d\<in>set (depends_on s). \<exists>t\<in>set (steps p).
                     step_id t = d \<and> (status t = COMPLETED \<or> status t = SKIPPED)))
       (steps p)
   \<and> (\<forall>s\<in>set (steps p).
        (\<exists>d\<in>set (depends_on s). d \<notin> step_id ` set (steps p)) \<longrightarrow>
        s \<notin> set (get_ready_steps p))"
proof
  show "get_ready_steps p =
     filter (\<lambda>s. status s = PENDING \<and>
                 (\<forall>d\<in>set (depends_on s). \<exists>t\<in>set (steps p).
                     step_id t = d \<and> (status t = COMPLETED \<or> status t = SKIPPED)))
       (steps p)"
    unfolding get_ready_steps_def list_all_iff mem_completed_ids ..
next
  show "\<forall>s\<in>set (steps p).
        (\<exists>d\<in>set (depends_on s). d \<notin> step_id ` set (steps p)) \<longrightarrow>
        s \<notin> set (get_ready_steps p)"
    by (fastforce simp: get_ready_steps_def list_all_iff mem_completed_ids)
qed

text \<open>
  The theorem at a four-step plan: \<open>a\<close> is completed, \<open>b\<close> waits for \<open>a\<close>, \<open>c\<close>
  names a step that does not exist, \<open>d\<close> waits for the pending \<open>b\<close>. Only \<open>b\<close> is
  ready.
\<close>

theorem get_ready_steps_exact_witness:
  "get_ready_steps
     \<lparr> plan_id = ''p'', goal_id = ''g'', version = 1, is_active = True,
       steps = [(new_step ''a'' ''A'' [] []) \<lparr> status := COMPLETED \<rparr>,
                (new_step ''b'' ''B'' [] []) \<lparr> depends_on := [''a''] \<rparr>,
                (new_step ''c'' ''C'' [] []) \<lparr> depends_on := [''ghost''] \<rparr>,
                (new_step ''d'' ''D'' [] []) \<lparr> depends_on := [''b''] \<rparr>],
       created_at = 0 \<rparr>
   = [(new_step ''b'' ''B'' [] []) \<lparr> depends_on := [''a''] \<rparr>]"
  using get_ready_steps_exact
    [of "\<lparr> plan_id = ''p'', goal_id = ''g'', version = 1, is_active = True,
       steps = [(new_step ''a'' ''A'' [] []) \<lparr> status := COMPLETED \<rparr>,
                (new_step ''b'' ''B'' [] []) \<lparr> depends_on := [''a''] \<rparr>,
                (new_step ''c'' ''C'' [] []) \<lparr> depends_on := [''ghost''] \<rparr>,
                (new_step ''d'' ''D'' [] []) \<lparr> depends_on := [''b''] \<rparr>],
       created_at = 0 \<rparr>"]
  by (simp add: new_step_def)

text \<open>The engine's positions of ready steps are the positions of the steps that
  \<open>get_ready_steps\<close> returns.\<close>

lemma ready_indices_steps: "map ((!) (steps p)) (ready_indices p) = get_ready_steps p"
proof -
  let ?P = "\<lambda>s. status s = PENDING \<and> list_all (\<lambda>dep. dep \<in> completed_ids p) (depends_on s)"
  have "get_ready_steps p = filter ?P (map ((!) (steps p)) [0..<length (steps p)])"
    by (simp add: get_ready_steps_def map_nth)
  also have "\<dots> = map ((!) (steps p)) (filter (?P \<circ> (!) (steps p)) [0..<length (steps p)])"
    by (simp only: filter_map)
  also have "\<dots> = map ((!) (steps p)) (ready_indices p)"
    by (simp add: ready_indices_def comp_def)
  finally show ?thesis by simp
qed

section \<open>Replanner: what a replan does to completed steps\<close>

lemma copy_step_frame:
  "copy_step mbi strategy f s = Inr c \<Longrightarrow> status s = COMPLETED \<Longrightarrow> step_id s \<noteq> step_id f \<Longrightarrow> c = s"
  by (auto simp: copy_step_def split: option.splits if_splits sum.splits)

lemma copy_steps_length:
  "copy_steps mbi strategy f ss = Inr cs \<Longrightarrow> length cs = length ss"
  by (induction ss arbitrary: cs) (auto split: sum.splits)

lemma copy_steps_frame:
  "copy_steps mbi strategy f ss = Inr cs \<Longrightarrow> i < length ss \<Longrightarrow>
   status (ss ! i) = COMPLETED \<Longrightarrow> step_id (ss ! i) \<noteq> step_id f \<Longrightarrow> cs ! i = ss ! i"
proof (induction ss arbitrary: cs i)
  case Nil
  then show ?case by simp
next
  case (Cons s ss)
  then obtain c cs' where c: "copy_step mbi strategy f s = Inr c"
    and cs': "copy_steps mbi strategy f ss = Inr cs'" and cs: "cs = c # cs'"
    by (auto split: sum.splits)
  show ?case
  proof (cases i)
    case 0
    with Cons.prems c cs show ?thesis by (auto dest: copy_step_frame)
  next
    case (Suc j)
    with Cons.prems cs' cs Cons.IH [of cs' j] show ?thesis by simp
  qed
qed

lemma reset_failed_frame: "step_id s \<noteq> step_id f \<Longrightarrow> reset_failed f ids s = s"
  by (simp add: reset_failed_def)

lemma simple_retry_step_frame: "step_id s \<noteq> step_id f \<Longrightarrow> simple_retry_step f s = s"
  by (simp add: simple_retry_step_def)

lemma apply_modifications_frame:
  assumes "apply_modifications pid now uuids p f rd = Inr p'"
    and "i < length (steps p)" and "status (steps p ! i) = COMPLETED"
    and "step_id (steps p ! i) \<noteq> step_id f"
  shows "i < length (steps p') \<and> steps p' ! i = steps p ! i"
proof -
  from assms(1) obtain copied where
    cp: "copy_steps (modified_by_id (rd_modified_steps rd)) (get_or (rd_strategy rd) ''retry'') f (steps p) = Inr copied"
    by (auto simp: apply_modifications_def Let_def split: sum.splits)
  have len: "length copied = length (steps p)" using cp by (rule copy_steps_length)
  have fr: "copied ! i = steps p ! i" using cp assms(2-4) by (rule copy_steps_frame)
  show ?thesis
  proof (cases "get_or (rd_strategy rd) ''retry'' = ''insert''")
    case True
    with assms(1) cp have
      "\<exists>ns. steps p' = map (reset_failed f (map step_id ns)) (copied @ ns)"
      by (auto simp: apply_modifications_def Let_def split: sum.splits)
    then obtain ns where
      "steps p' = map (reset_failed f (map step_id ns)) (copied @ ns)" ..
    with len fr assms(2,4) show ?thesis
      by (simp add: nth_append reset_failed_frame)
  next
    case False
    with assms(1) cp have "steps p' = copied"
      by (auto simp: apply_modifications_def Let_def split: sum.splits)
    with len fr assms(2) show ?thesis by simp
  qed
qed

lemma simple_retry_frame:
  assumes "i < length (steps p)" and "step_id (steps p ! i) \<noteq> step_id f"
  shows "i < length (steps (simple_retry pid now p f)) \<and> steps (simple_retry pid now p f) ! i = steps p ! i"
  using assms by (simp add: simple_retry_def simple_retry_step_frame)

lemma replan_frame:
  assumes "i < length (steps p)" and "status (steps p ! i) = COMPLETED"
    and "step_id (steps p ! i) \<noteq> step_id f"
  shows "i < length (steps (replan pid now uuids answer p f)) \<and>
         steps (replan pid now uuids answer p f) ! i = steps p ! i"
  using assms
  by (auto simp: replan_def split: sum.splits dest: apply_modifications_frame simple_retry_frame)

lemma distinct_ids_other:
  assumes "distinct (map step_id ss)" and "f \<in> set ss" and "i < length ss" and "status (ss ! i) \<noteq> status f"
  shows "step_id (ss ! i) \<noteq> step_id f"
proof
  assume eq: "step_id (ss ! i) = step_id f"
  from assms(2) obtain j where j: "j < length ss" "ss ! j = f" by (auto simp: in_set_conv_nth)
  with eq assms(3) have "map step_id ss ! i = map step_id ss ! j" by simp
  with assms(1,3) j(1) have "i = j" by (auto simp: distinct_conv_nth)
  with j assms(4) show False by simp
qed

lemma replan_frame_distinct:
  assumes "distinct (map step_id (steps plan))"
    and "failed_step \<in> set (steps plan)"
    and "status failed_step \<noteq> COMPLETED"
    and "i < length (steps plan)" and "status (steps plan ! i) = COMPLETED"
  shows "i < length (steps (replan pid now uuids answer plan failed_step)) \<and>
         steps (replan pid now uuids answer plan failed_step) ! i = steps plan ! i"
proof -
  from assms(3,5) have "status (steps plan ! i) \<noteq> status failed_step" by simp
  with assms(1,2,4) have "step_id (steps plan ! i) \<noteq> step_id failed_step"
    by (rule distinct_ids_other)
  with assms(4,5) show ?thesis by (rule replan_frame)
qed

lemma edit_step_fields:
  "edit_step ms c = Inr c' \<Longrightarrow>
     status c' = status c \<and> retry_count c' = retry_count c \<and> max_retries c' = max_retries c
     \<and> step_id c' = step_id c"
  by (auto simp: edit_step_def split: sum.splits)

lemma copy_step_other:
  "copy_step mbi strategy f s = Inr c \<Longrightarrow> step_id s \<noteq> step_id f \<Longrightarrow>
     status c = status s \<and> retry_count c = retry_count s \<and> max_retries c = max_retries s"
  by (auto simp: copy_step_def split: option.splits if_splits sum.splits dest: edit_step_fields)

lemma copy_step_id:
  "copy_step mbi strategy f s = Inr c \<Longrightarrow> step_id c = step_id s"
  by (auto simp: copy_step_def apply_strategy_def split: option.splits if_splits sum.splits dest: edit_step_fields)

lemma copy_steps_nth:
  "copy_steps mbi strategy f ss = Inr cs \<Longrightarrow> i < length ss \<Longrightarrow>
     copy_step mbi strategy f (ss ! i) = Inr (cs ! i)"
proof (induction ss arbitrary: cs i)
  case Nil
  then show ?case by simp
next
  case (Cons s ss)
  then obtain c cs' where c: "copy_step mbi strategy f s = Inr c"
    and cs': "copy_steps mbi strategy f ss = Inr cs'" and cs: "cs = c # cs'"
    by (auto split: sum.splits)
  show ?case
  proof (cases i)
    case 0
    with c cs show ?thesis by simp
  next
    case (Suc j)
    with Cons.prems cs' cs Cons.IH [of cs' j] show ?thesis by simp
  qed
qed

lemma apply_modifications_nth:
  assumes "apply_modifications pid now uuids p f rd = Inr p'" and "i < length (steps p)"
  shows "\<exists>c. copy_step (modified_by_id (rd_modified_steps rd)) (get_or (rd_strategy rd) ''retry'') f (steps p ! i) = Inr c
            \<and> i < length (steps p')
            \<and> (steps p' ! i = c \<or> (\<exists>ids. steps p' ! i = reset_failed f ids c))"
proof -
  from assms(1) obtain copied where
    cp: "copy_steps (modified_by_id (rd_modified_steps rd)) (get_or (rd_strategy rd) ''retry'') f (steps p) = Inr copied"
    by (auto simp: apply_modifications_def Let_def split: sum.splits)
  have len: "length copied = length (steps p)" using cp by (rule copy_steps_length)
  have c: "copy_step (modified_by_id (rd_modified_steps rd)) (get_or (rd_strategy rd) ''retry'') f (steps p ! i) = Inr (copied ! i)"
    using cp assms(2) by (rule copy_steps_nth)
  show ?thesis
  proof (cases "get_or (rd_strategy rd) ''retry'' = ''insert''")
    case True
    with assms(1) cp have
      "\<exists>ns. steps p' = map (reset_failed f (map step_id ns)) (copied @ ns)"
      by (auto simp: apply_modifications_def Let_def split: sum.splits)
    then obtain ns where
      "steps p' = map (reset_failed f (map step_id ns)) (copied @ ns)" ..
    with len c assms(2) show ?thesis
      by (auto simp: nth_append)
  next
    case False
    with assms(1) cp have "steps p' = copied"
      by (auto simp: apply_modifications_def Let_def split: sum.splits)
    with len c assms(2) show ?thesis by simp
  qed
qed

lemma copy_steps_no_edits:
  "copy_steps (\<lambda>k. None) strategy f ss
     = Inr (map (\<lambda>s. if step_id s = step_id f then apply_strategy strategy s else s) ss)"
  by (induction ss) (simp_all add: copy_step_def)

lemma simple_retry_nth:
  "i < length (steps p) \<Longrightarrow>
     i < length (steps (simple_retry pid now p f))
     \<and> steps (simple_retry pid now p f) ! i = simple_retry_step f (steps p ! i)"
  by (simp add: simple_retry_def)

lemma simple_retry_step_twin:
  "step_id s = step_id f \<Longrightarrow> status s = COMPLETED \<Longrightarrow>
     status (simple_retry_step f s) \<noteq> COMPLETED"
  by (simp add: simple_retry_step_def)

lemma copy_step_twin:
  assumes "copy_step mbi strategy f s = Inr c" and "step_id s = step_id f"
    and "status s = COMPLETED"
  shows "c = apply_strategy strategy s"
  using assms by (auto simp: copy_step_def split: option.splits)

text \<open>
  Claim C9. The claim fails for a completed step that carries the same \<open>step_id\<close> as the
  failed step. The loop that copies the steps shields a completed step from the edits of
  the answer (\<open>step_copy.status != StepStatus.COMPLETED\<close>), but the strategy branch, the
  reset of the \<open>insert\<close> strategy and \<open>_simple_retry\<close> select their step by
  \<open>s.step_id == failed_step.step_id\<close> alone, and nothing in the planner or the replanner
  keeps the ids of a plan apart. For such a step the new version holds a step that is
  no longer completed: the fallback sets it pending with its counter incremented and its
  result payload erased (or failed, at the ceiling); a \<open>retry\<close> answer sets it pending
  with counter 0 and the payload erased; \<open>skip\<close> marks it skipped, \<open>escalate\<close> failed,
  \<open>insert\<close> pending. Only an answer with an unknown strategy leaves it as it was.
\<close>

theorem replan_alters_completed_twin:
  assumes "i < length (steps plan)"
    and "status (steps plan ! i) = COMPLETED"
    and "step_id (steps plan ! i) = step_id failed_step"
  shows "i < length (steps (replan pid now uuids answer plan failed_step))
    \<and> ((case answer of
            Inl e \<Rightarrow> True
          | Inr rd \<Rightarrow> get_or (rd_strategy rd) ''retry''
                       \<in> {''retry'', ''insert'', ''skip'', ''escalate''}) \<longrightarrow>
         status (steps (replan pid now uuids answer plan failed_step) ! i) \<noteq> COMPLETED)
    \<and> (retry_count (steps plan ! i) < max_retries (steps plan ! i) \<longrightarrow>
         steps (replan pid now uuids (Inl e) plan failed_step) ! i
           = (steps plan ! i) \<lparr> status := PENDING,
                                 retry_count := retry_count (steps plan ! i) + 1,
                                 error_message := None, result_payload := None \<rparr>)
    \<and> steps (replan pid now uuids
                  (Inr \<lparr> rd_strategy = Some ''retry'', rd_reasoning = reasoning',
                         rd_modified_steps = [] \<rparr>) plan failed_step) ! i
           = (steps plan ! i) \<lparr> status := PENDING, retry_count := 0,
                                 error_message := None, result_payload := None \<rparr>"
proof -
  let ?s = "steps plan ! i"
  note sr = simple_retry_nth [OF assms(1), of pid now failed_step]
  from assms(2,3) have srs: "status (simple_retry_step failed_step ?s) \<noteq> COMPLETED"
    by (simp add: simple_retry_step_twin)
  have gen: "i < length (steps (replan pid now uuids answer plan failed_step))
     \<and> ((case answer of
            Inl e \<Rightarrow> True
          | Inr rd \<Rightarrow> get_or (rd_strategy rd) ''retry''
                       \<in> {''retry'', ''insert'', ''skip'', ''escalate''}) \<longrightarrow>
         status (steps (replan pid now uuids answer plan failed_step) ! i) \<noteq> COMPLETED)"
  proof (cases answer)
    case (Inl e)
    with sr srs show ?thesis by (simp add: replan_def)
  next
    case (Inr rd)
    show ?thesis
    proof (cases "apply_modifications pid now uuids plan failed_step rd")
      case (Inl e)
      with Inr sr srs show ?thesis by (simp add: replan_def)
    next
      case r: (Inr p')
      let ?strategy = "get_or (rd_strategy rd) ''retry''"
      from apply_modifications_nth [OF r assms(1)] obtain c where
        c: "copy_step (modified_by_id (rd_modified_steps rd)) ?strategy failed_step ?s = Inr c"
        and l: "i < length (steps p')"
        and d: "steps p' ! i = c \<or> (\<exists>ids. steps p' ! i = reset_failed failed_step ids c)"
        by blast
      from c assms(3,2) have ce: "c = apply_strategy ?strategy ?s" by (rule copy_step_twin)
      have ins: "steps p' ! i = reset_failed failed_step (map step_id ns) c"
        if "?strategy = ''insert''"
           "steps p' = map (reset_failed failed_step (map step_id ns)) (copied @ ns)"
           "copy_steps (modified_by_id (rd_modified_steps rd)) ?strategy failed_step (steps plan)
              = Inr copied" for ns copied
      proof -
        from that(3) have "length copied = length (steps plan)" by (rule copy_steps_length)
        moreover from that(3) assms(1) have
          "copy_step (modified_by_id (rd_modified_steps rd)) ?strategy failed_step ?s
             = Inr (copied ! i)" by (rule copy_steps_nth)
        ultimately show ?thesis using that(2) c assms(1) by (simp add: nth_append)
      qed
      have st: "status (steps p' ! i) \<noteq> COMPLETED"
        if m: "?strategy \<in> {''retry'', ''insert'', ''skip'', ''escalate''}"
      proof (cases "?strategy = ''insert''")
        case True
        with r have "\<exists>ns copied.
          steps p' = map (reset_failed failed_step (map step_id ns)) (copied @ ns)
          \<and> copy_steps (modified_by_id (rd_modified_steps rd)) ?strategy failed_step (steps plan)
              = Inr copied"
          by (auto simp: apply_modifications_def Let_def split: sum.splits)
        then obtain ns copied where
          "steps p' = map (reset_failed failed_step (map step_id ns)) (copied @ ns)"
          "copy_steps (modified_by_id (rd_modified_steps rd)) ?strategy failed_step (steps plan)
              = Inr copied" by blast
        with True have "steps p' ! i = reset_failed failed_step (map step_id ns) c"
          by (rule ins)
        moreover from ce True assms(3) have "step_id c = step_id failed_step"
          by (simp add: apply_strategy_def)
        ultimately show ?thesis by (simp add: reset_failed_def)
      next
        case False
        with m ce assms(2) have "status c \<noteq> COMPLETED" by (auto simp: apply_strategy_def)
        moreover from ce assms(3) have "step_id c = step_id failed_step"
          by (simp add: apply_strategy_def)
        ultimately show ?thesis using d by (auto simp: reset_failed_def)
      qed
      from Inr r l st show ?thesis by (simp add: replan_def)
    qed
  qed
  have fb: "steps (replan pid now uuids (Inl e) plan failed_step) ! i
           = ?s \<lparr> status := PENDING, retry_count := retry_count ?s + 1,
                   error_message := None, result_payload := None \<rparr>"
    if "retry_count ?s < max_retries ?s"
    using that sr assms(3) by (simp add: replan_def simple_retry_step_def)
  have rt: "steps (replan pid now uuids
                  (Inr \<lparr> rd_strategy = Some ''retry'', rd_reasoning = reasoning',
                         rd_modified_steps = [] \<rparr>) plan failed_step) ! i
           = ?s \<lparr> status := PENDING, retry_count := 0,
                   error_message := None, result_payload := None \<rparr>"
    using assms(1,3)
    by (simp add: replan_def apply_modifications_def modified_by_id_def List.map_filter_simps
          copy_steps_no_edits get_or_def apply_strategy_def)
  from gen fb rt show ?thesis by blast
qed

text \<open>The engine reaches such a replan from a fresh plan: the first step \<open>s1\<close> is completed
  in the first round, its twin fails three times in the next three rounds, and the
  fallback of the fourth round returns the completed step pending, without its result.\<close>

lemma ex_twin_run:
  "(case loop_body ex_twin_agents ''g1'' ''Prepare for GATE'' 1 ex_twin_fresh_plan of
      (evs1, Inr (p1, b1)) \<Rightarrow>
         map status (steps p1) = [COMPLETED, PENDING]
         \<and> result_payload (steps p1 ! 0) = Some [(''result_summary'', ''done'')]
    | _ \<Rightarrow> False)
   \<and> (case execute_plan ex_twin_agents ex_twin_fresh_plan ''g1'' ''Prepare for GATE'' of
        (evs, Inr final) \<Rightarrow>
           version final = 2
           \<and> map step_id (steps final) = [''s1'', ''s1'']
           \<and> map status (steps final) = [PENDING, FAILED]
           \<and> map retry_count (steps final) = [1, 3]
           \<and> map result_payload (steps final) = [None, None]
      | _ \<Rightarrow> False)"
  by code_simp

text \<open>A plan whose completed first step and failed second step carry the same id. The
  fallback and a \<open>retry\<close> answer both set the completed step pending and erase its result
  payload, and after an \<open>insert\<close> answer it is not completed either.\<close>

theorem replan_alters_completed_twin_witness:
  "0 < length (steps ex_twin_plan)
   \<and> status (steps ex_twin_plan ! 0) = COMPLETED
   \<and> result_payload (steps ex_twin_plan ! 0) = Some [(''result_summary'', ''ok'')]
   \<and> step_id (steps ex_twin_plan ! 0) = step_id ex_twin_failed
   \<and> ex_twin_failed \<in> set (steps ex_twin_plan)
   \<and> status ex_twin_failed = FAILED
   \<and> retry_count (steps ex_twin_plan ! 0) < max_retries (steps ex_twin_plan ! 0)
   \<and> steps (replan ''p2'' 9 (\<lambda>k. ''0123456789'')
              (Inl (Exn ''RuntimeError'' ''All LLM providers failed. Last error: TimeoutError()''))
              ex_twin_plan ex_twin_failed) ! 0
       = (steps ex_twin_plan ! 0) \<lparr> status := PENDING, retry_count := 1,
                                     error_message := None, result_payload := None \<rparr>
   \<and> steps (replan ''p2'' 9 (\<lambda>k. ''0123456789'')
              (Inr \<lparr> rd_strategy = Some ''retry'', rd_reasoning = Some ''try again'',
                     rd_modified_steps = [] \<rparr>)
              ex_twin_plan ex_twin_failed) ! 0
       = (steps ex_twin_plan ! 0) \<lparr> status := PENDING, retry_count := 0,
                                     error_message := None, result_payload := None \<rparr>
   \<and> status (steps (replan ''p2'' 9 (\<lambda>k. ''0123456789'') (Inr ex_answer)
              ex_twin_plan ex_twin_failed) ! 0) \<noteq> COMPLETED"
proof -
  have l: "0 < length (steps ex_twin_plan)" by (simp add: ex_twin_plan_def)
  have c: "status (steps ex_twin_plan ! 0) = COMPLETED"
    by (simp add: ex_twin_plan_def new_step_def)
  have pl: "result_payload (steps ex_twin_plan ! 0) = Some [(''result_summary'', ''ok'')]"
    by (simp add: ex_twin_plan_def new_step_def)
  have i: "step_id (steps ex_twin_plan ! 0) = step_id ex_twin_failed"
    by (simp add: ex_twin_plan_def ex_twin_failed_def new_step_def)
  have m: "ex_twin_failed \<in> set (steps ex_twin_plan)" by (simp add: ex_twin_plan_def)
  have f: "status ex_twin_failed = FAILED" by (simp add: ex_twin_failed_def new_step_def)
  have rc: "retry_count (steps ex_twin_plan ! 0) = 0"
    by (simp add: ex_twin_plan_def new_step_def)
  have mr: "max_retries (steps ex_twin_plan ! 0) = 3"
    by (simp add: ex_twin_plan_def new_step_def)
  let ?err = "Exn ''RuntimeError'' ''All LLM providers failed. Last error: TimeoutError()''"
  from replan_alters_completed_twin [OF l c i, of "''p2''" 9 "\<lambda>k. ''0123456789''" "Inr ex_answer"
         ?err "Some ''try again''"] rc mr
  have a: "steps (replan ''p2'' 9 (\<lambda>k. ''0123456789'') (Inl ?err) ex_twin_plan ex_twin_failed) ! 0
       = (steps ex_twin_plan ! 0) \<lparr> status := PENDING, retry_count := 1,
                                     error_message := None, result_payload := None \<rparr>"
    and b: "steps (replan ''p2'' 9 (\<lambda>k. ''0123456789'')
              (Inr \<lparr> rd_strategy = Some ''retry'', rd_reasoning = Some ''try again'',
                     rd_modified_steps = [] \<rparr>)
              ex_twin_plan ex_twin_failed) ! 0
       = (steps ex_twin_plan ! 0) \<lparr> status := PENDING, retry_count := 0,
                                     error_message := None, result_payload := None \<rparr>"
    and d: "status (steps (replan ''p2'' 9 (\<lambda>k. ''0123456789'') (Inr ex_answer)
              ex_twin_plan ex_twin_failed) ! 0) \<noteq> COMPLETED"
    by (simp_all add: ex_answer_def get_or_def)
  from l c pl i m f rc mr a b d show ?thesis by simp
qed

section \<open>Event bus: delivery to the snapshot\<close>

lemma delivered_bus_apply: "delivered (bus_apply op b) = delivered b"
  by (cases op) (simp_all add: add_event_listener_def remove_event_listener_def)

lemma delivered_fold_bus_apply: "delivered (fold bus_apply ops b) = delivered b"
  by (induction ops arbitrary: b) (simp_all add: delivered_bus_apply)

lemma call_listener_delivered:
  "call_listener react event l b = (b', r) \<Longrightarrow> delivered b' = delivered b @ [(l, event)]"
  by (auto simp: call_listener_def delivered_fold_bus_apply split: prod.splits)

lemma warnings_bus_apply: "warnings (bus_apply op b) = warnings b"
  by (cases op) (simp_all add: add_event_listener_def remove_event_listener_def)

lemma warnings_fold_bus_apply: "warnings (fold bus_apply ops b) = warnings b"
  by (induction ops arbitrary: b) (simp_all add: warnings_bus_apply)

lemma call_listener_warnings:
  "call_listener react event l b = (b', r) \<Longrightarrow> warnings b' = warnings b"
  by (auto simp: call_listener_def warnings_fold_bus_apply split: prod.splits)

lemma call_listener_raises:
  "call_listener react event l b = (b', r) \<Longrightarrow> snd (react l event (event_listeners b)) = Some ce
     \<Longrightarrow> r = Inl ce"
  by (auto simp: call_listener_def split: prod.splits)

lemma call_listener_raised:
  "call_listener react event l b = (b', Inl ce) \<Longrightarrow>
     snd (react l event (event_listeners b)) = Some ce"
  by (auto simp: call_listener_def split: prod.splits option.splits)

lemma not_Exception: "\<not> isinstance_Exception c \<Longrightarrow> c = BaseExceptionClass"
  by (cases c) (simp_all add: isinstance_Exception_def)

text \<open>The loop calls a prefix of its list, in order; it returns after the whole list, and
  it raises right after the call of a listener that raised outside \<open>Exception\<close>. Every
  called listener that raises an \<open>Exception\<close> has its error among the warnings.\<close>

lemma broadcast_loop_prefix:
  "broadcast_loop react event ls b = (b', r) \<Longrightarrow>
     \<exists>n \<le> length ls.
        delivered b' = delivered b @ map (\<lambda>l. (l, event)) (take n ls)
        \<and> (r = Inr () \<longrightarrow> n = length ls)
        \<and> (\<forall>e. r = Inl e \<longrightarrow>
              0 < n \<and> (\<exists>xs. snd (react (ls ! (n - 1)) event xs) = Some (BaseExceptionClass, e)))
        \<and> set (warnings b) \<subseteq> set (warnings b')
        \<and> (\<forall>l c e. l \<in> set (take n ls) \<longrightarrow> isinstance_Exception c \<longrightarrow>
              (\<forall>xs. snd (react l event xs) = Some (c, e)) \<longrightarrow>
              (''broadcast_error error='' @ exn_str e) \<in> set (warnings b'))"
proof (induction ls arbitrary: b)
  case Nil
  then show ?case by auto
next
  case (Cons l ls)
  obtain b1 rr where c: "call_listener react event l b = (b1, rr)"
    by (cases "call_listener react event l b")
  then have d: "delivered b1 = delivered b @ [(l, event)]" by (rule call_listener_delivered)
  from c have w: "warnings b1 = warnings b" by (rule call_listener_warnings)
  show ?case
  proof (cases rr)
    case (Inr u)
    from Cons.prems c Inr have rest: "broadcast_loop react event ls b1 = (b', r)" by simp
    from Cons.IH [OF rest] obtain n where n: "n \<le> length ls"
      and dn: "delivered b' = delivered b1 @ map (\<lambda>l. (l, event)) (take n ls)"
      and rn: "r = Inr () \<longrightarrow> n = length ls"
      and en: "\<forall>e. r = Inl e \<longrightarrow>
              0 < n \<and> (\<exists>xs. snd (react (ls ! (n - 1)) event xs) = Some (BaseExceptionClass, e))"
      and wn: "set (warnings b1) \<subseteq> set (warnings b')"
      and ln: "\<forall>l c e. l \<in> set (take n ls) \<longrightarrow> isinstance_Exception c \<longrightarrow>
              (\<forall>xs. snd (react l event xs) = Some (c, e)) \<longrightarrow>
              (''broadcast_error error='' @ exn_str e) \<in> set (warnings b')"
      by blast
    have quiet: "\<not> (\<forall>xs. snd (react l event xs) = Some ce)" for ce
    proof
      assume "\<forall>xs. snd (react l event xs) = Some ce"
      then have "snd (react l event (event_listeners b)) = Some ce" by blast
      with c have "rr = Inl ce" by (rule call_listener_raises)
      with Inr show False by simp
    qed
    have e': "\<forall>e. r = Inl e \<longrightarrow>
              0 < Suc n \<and> (\<exists>xs. snd (react ((l # ls) ! (Suc n - 1)) event xs)
                                  = Some (BaseExceptionClass, e))"
    proof (intro allI impI)
      fix e assume "r = Inl e"
      with en have "0 < n" and x: "\<exists>xs. snd (react (ls ! (n - 1)) event xs) = Some (BaseExceptionClass, e)"
        by auto
      from \<open>0 < n\<close> have "(l # ls) ! (Suc n - 1) = ls ! (n - 1)" by (cases n) simp_all
      with x show "0 < Suc n \<and> (\<exists>xs. snd (react ((l # ls) ! (Suc n - 1)) event xs)
                                  = Some (BaseExceptionClass, e))" by simp
    qed
    have l': "\<forall>l' c e. l' \<in> set (take (Suc n) (l # ls)) \<longrightarrow> isinstance_Exception c \<longrightarrow>
              (\<forall>xs. snd (react l' event xs) = Some (c, e)) \<longrightarrow>
              (''broadcast_error error='' @ exn_str e) \<in> set (warnings b')"
      using ln quiet by auto
    show ?thesis
      apply (rule exI [of _ "Suc n"])
      using n dn d rn e' wn w l' by simp
  next
    case (Inl ce)
    obtain c' e' where ce: "ce = (c', e')" by (cases ce)
    from c Inl ce have raised: "snd (react l event (event_listeners b)) = Some (c', e')"
      by (auto dest: call_listener_raised)
    show ?thesis
    proof (cases "isinstance_Exception c'")
      case True
      let ?b2 = "b1 \<lparr> warnings := warnings b1 @ [''broadcast_error error='' @ exn_str e'] \<rparr>"
      from Cons.prems c Inl ce True have rest: "broadcast_loop react event ls ?b2 = (b', r)"
        by simp
      from Cons.IH [OF rest] obtain n where n: "n \<le> length ls"
        and dn: "delivered b' = delivered ?b2 @ map (\<lambda>l. (l, event)) (take n ls)"
        and rn: "r = Inr () \<longrightarrow> n = length ls"
        and en: "\<forall>e. r = Inl e \<longrightarrow>
              0 < n \<and> (\<exists>xs. snd (react (ls ! (n - 1)) event xs) = Some (BaseExceptionClass, e))"
        and wn: "set (warnings ?b2) \<subseteq> set (warnings b')"
        and ln: "\<forall>l c e. l \<in> set (take n ls) \<longrightarrow> isinstance_Exception c \<longrightarrow>
              (\<forall>xs. snd (react l event xs) = Some (c, e)) \<longrightarrow>
              (''broadcast_error error='' @ exn_str e) \<in> set (warnings b')"
        by blast
      have here: "(''broadcast_error error='' @ exn_str e) \<in> set (warnings b')"
        if "\<forall>xs. snd (react l event xs) = Some (c, e)" for c e
      proof -
        from that have "snd (react l event (event_listeners b)) = Some (c, e)" by blast
        with raised have "e = e'" by simp
        with wn show ?thesis by auto
      qed
      have en': "\<forall>e. r = Inl e \<longrightarrow>
              0 < Suc n \<and> (\<exists>xs. snd (react ((l # ls) ! (Suc n - 1)) event xs)
                                  = Some (BaseExceptionClass, e))"
      proof (intro allI impI)
        fix e assume "r = Inl e"
        with en have "0 < n" and x: "\<exists>xs. snd (react (ls ! (n - 1)) event xs) = Some (BaseExceptionClass, e)"
          by auto
        from \<open>0 < n\<close> have "(l # ls) ! (Suc n - 1) = ls ! (n - 1)" by (cases n) simp_all
        with x show "0 < Suc n \<and> (\<exists>xs. snd (react ((l # ls) ! (Suc n - 1)) event xs)
                                  = Some (BaseExceptionClass, e))" by simp
      qed
      have l': "\<forall>l' c e. l' \<in> set (take (Suc n) (l # ls)) \<longrightarrow> isinstance_Exception c \<longrightarrow>
              (\<forall>xs. snd (react l' event xs) = Some (c, e)) \<longrightarrow>
              (''broadcast_error error='' @ exn_str e) \<in> set (warnings b')"
        using ln here by auto
      from wn w have wb: "set (warnings b) \<subseteq> set (warnings b')" by auto
      show ?thesis
        apply (rule exI [of _ "Suc n"])
        using n dn d rn en' wb l' by simp
    next
      case False
      then have base: "c' = BaseExceptionClass" by (rule not_Exception)
      from Cons.prems c Inl ce False have res: "b' = b1" "r = Inl e'" by simp_all
      have l': "\<forall>l' c e. l' \<in> set (take (Suc 0) (l # ls)) \<longrightarrow> isinstance_Exception c \<longrightarrow>
              (\<forall>xs. snd (react l' event xs) = Some (c, e)) \<longrightarrow>
              (''broadcast_error error='' @ exn_str e) \<in> set (warnings b')"
      proof (intro allI impI)
        fix l' c e
        assume "l' \<in> set (take (Suc 0) (l # ls))" and ie: "isinstance_Exception c"
          and "\<forall>xs. snd (react l' event xs) = Some (c, e)"
        then have "snd (react l event (event_listeners b)) = Some (c, e)" by simp
        with raised have "c = c'" by simp
        with ie False show "(''broadcast_error error='' @ exn_str e) \<in> set (warnings b')" by simp
      qed
      have x: "\<exists>xs. snd (react ((l # ls) ! (Suc 0 - 1)) event xs) = Some (BaseExceptionClass, e')"
        using raised base by auto
      show ?thesis
        apply (rule exI [of _ "Suc 0"])
        using res d w x l' by simp
    qed
  qed
qed

text \<open>When no listener of the list raises outside \<open>Exception\<close>, the loop returns; when one
  of them does so whenever it is called, the loop raises.\<close>

lemma broadcast_loop_returns:
  "\<forall>l \<in> set ls. \<forall>xs c e. snd (react l event xs) = Some (c, e) \<longrightarrow> isinstance_Exception c \<Longrightarrow>
     \<exists>b'. broadcast_loop react event ls b = (b', Inr ())"
proof (induction ls arbitrary: b)
  case Nil
  then show ?case by simp
next
  case (Cons l ls)
  obtain b1 rr where c: "call_listener react event l b = (b1, rr)"
    by (cases "call_listener react event l b")
  from Cons.prems have rest:
    "\<forall>l \<in> set ls. \<forall>xs c e. snd (react l event xs) = Some (c, e) \<longrightarrow> isinstance_Exception c"
    by simp
  show ?case
  proof (cases rr)
    case (Inr u)
    with c Cons.IH [OF rest, of b1] show ?thesis by simp
  next
    case (Inl ce)
    obtain c' e' where ce: "ce = (c', e')" by (cases ce)
    from c Inl ce have "snd (react l event (event_listeners b)) = Some (c', e')"
      by (auto dest: call_listener_raised)
    with Cons.prems have "isinstance_Exception c'" by auto
    with c Inl ce
      Cons.IH [OF rest, of "b1 \<lparr> warnings := warnings b1 @ [''broadcast_error error='' @ exn_str e'] \<rparr>"]
    show ?thesis by simp
  qed
qed

lemma broadcast_loop_raises:
  "l \<in> set ls \<Longrightarrow> \<forall>xs. \<exists>e. snd (react l event xs) = Some (BaseExceptionClass, e) \<Longrightarrow>
     \<exists>b' e. broadcast_loop react event ls b = (b', Inl e)"
proof (induction ls arbitrary: b)
  case Nil
  then show ?case by simp
next
  case (Cons l' ls)
  obtain b1 rr where c: "call_listener react event l' b = (b1, rr)"
    by (cases "call_listener react event l' b")
  show ?case
  proof (cases "\<exists>e. rr = Inl (BaseExceptionClass, e)")
    case True
    with c show ?thesis by (auto simp: isinstance_Exception_def)
  next
    case False
    have "l \<noteq> l'"
    proof
      assume "l = l'"
      with Cons.prems(2) obtain e where
        "snd (react l' event (event_listeners b)) = Some (BaseExceptionClass, e)" by blast
      with c have "rr = Inl (BaseExceptionClass, e)" by (rule call_listener_raises)
      with False show False by simp
    qed
    with Cons.prems(1) have mem: "l \<in> set ls" by simp
    note ih = Cons.IH [OF mem Cons.prems(2)]
    show ?thesis
    proof (cases rr)
      case (Inr u)
      with c ih [of b1] show ?thesis by simp
    next
      case (Inl ce)
      obtain c' e' where ce: "ce = (c', e')" by (cases ce)
      with False Inl have "c' \<noteq> BaseExceptionClass" by auto
      then have "isinstance_Exception c'" by (cases c') (simp_all add: isinstance_Exception_def)
      with c Inl ce
        ih [of "b1 \<lparr> warnings := warnings b1 @ [''broadcast_error error='' @ exn_str e'] \<rparr>"]
      show ?thesis by simp
    qed
  qed
qed

text \<open>
  Claim C10, as amended. Whatever the listeners do when they are called (register
  listeners, remove listeners, raise), a broadcast calls listeners of the list as it was
  when the broadcast started and no others, in the order of that list, each once, up to
  some position \<open>n\<close>: a listener registered during the broadcast is not called for the
  event in flight. A listener that raises an \<open>Exception\<close> has its error logged as a warning
  and does not keep the later ones from being called. The broadcast returns normally only
  after the whole list (\<open>n\<close> is its length), and it does so whenever no listener of the
  list raises outside \<open>Exception\<close>. An exception outside \<open>Exception\<close> (a cancellation, a
  keyboard interrupt, a system exit) is not caught: the broadcast raises an exception
  only right after the call of a listener that raised it outside \<open>Exception\<close>, the
  listeners after that one are not called, and it does raise whenever a listener of the
  list raises outside \<open>Exception\<close> at every call.
\<close>

theorem broadcast_snapshot:
  "\<exists>b' r n. broadcast react event b = (b', r)
      \<and> n \<le> length (event_listeners b)
      \<and> delivered b' = delivered b @ map (\<lambda>l. (l, event)) (take n (event_listeners b))
      \<and> (r = Inr () \<longrightarrow> n = length (event_listeners b))
      \<and> (\<forall>e. r = Inl e \<longrightarrow>
            0 < n \<and> (\<exists>xs. snd (react (event_listeners b ! (n - 1)) event xs)
                             = Some (BaseExceptionClass, e)))
      \<and> (\<forall>l c e. l \<in> set (take n (event_listeners b)) \<longrightarrow> isinstance_Exception c \<longrightarrow>
            (\<forall>xs. snd (react l event xs) = Some (c, e)) \<longrightarrow>
            (''broadcast_error error='' @ exn_str e) \<in> set (warnings b'))
      \<and> ((\<forall>l \<in> set (event_listeners b). \<forall>xs c e.
             snd (react l event xs) = Some (c, e) \<longrightarrow> isinstance_Exception c) \<longrightarrow> r = Inr ())
      \<and> ((\<exists>l \<in> set (event_listeners b). \<forall>xs. \<exists>e.
             snd (react l event xs) = Some (BaseExceptionClass, e)) \<longrightarrow> (\<exists>e. r = Inl e))"
proof -
  obtain b' r where res: "broadcast_loop react event (event_listeners b) b = (b', r)"
    by (cases "broadcast_loop react event (event_listeners b) b")
  from broadcast_loop_prefix [OF res] obtain n where n: "n \<le> length (event_listeners b)"
    and d: "delivered b' = delivered b @ map (\<lambda>l. (l, event)) (take n (event_listeners b))"
    and rn: "r = Inr () \<longrightarrow> n = length (event_listeners b)"
    and en: "\<forall>e. r = Inl e \<longrightarrow>
            0 < n \<and> (\<exists>xs. snd (react (event_listeners b ! (n - 1)) event xs)
                             = Some (BaseExceptionClass, e))"
    and ln: "\<forall>l c e. l \<in> set (take n (event_listeners b)) \<longrightarrow> isinstance_Exception c \<longrightarrow>
            (\<forall>xs. snd (react l event xs) = Some (c, e)) \<longrightarrow>
            (''broadcast_error error='' @ exn_str e) \<in> set (warnings b')"
    by blast
  have ret: "r = Inr ()"
    if "\<forall>l \<in> set (event_listeners b). \<forall>xs c e.
             snd (react l event xs) = Some (c, e) \<longrightarrow> isinstance_Exception c"
    using that res
      broadcast_loop_returns [where ls = "event_listeners b" and react = react and event = event and b = b]
    by auto
  have rai: "\<exists>e. r = Inl e"
    if "\<exists>l \<in> set (event_listeners b). \<forall>xs. \<exists>e.
             snd (react l event xs) = Some (BaseExceptionClass, e)"
  proof -
    from that obtain l where "l \<in> set (event_listeners b)"
      and "\<forall>xs. \<exists>e. snd (react l event xs) = Some (BaseExceptionClass, e)" by blast
    with res
      broadcast_loop_raises [where ls = "event_listeners b" and react = react and event = event
                               and b = b and l = l]
    show ?thesis by auto
  qed
  from res have "broadcast react event b = (b', r)" by (simp add: broadcast_def)
  with n d rn en ln ret rai show ?thesis by blast
qed

text \<open>
  Claim C10 as stated fails: the broadcast can raise, and a raising listener can keep the
  later ones from being called. Two listeners are registered; the first is cancelled
  while it handles the event. The broadcast raises the cancellation and the second
  listener is never called.
\<close>

theorem broadcast_raises_counterexample:
  "broadcast
     (\<lambda>l ev ls. if l = 1 then ([], Some (BaseExceptionClass, Exn ''CancelledError'' []))
                 else ([], None))
     \<lparr> event_type = ''step_update'', e_goal_id = ''g'', e_data = [] \<rparr>
     \<lparr> event_listeners = [1, 2], delivered = [], warnings = [] \<rparr>
   = (\<lparr> event_listeners = [1, 2],
        delivered = [(1, \<lparr> event_type = ''step_update'', e_goal_id = ''g'', e_data = [] \<rparr>)],
        warnings = [] \<rparr>,
      Inl (Exn ''CancelledError'' []))"
  by (simp add: broadcast_def call_listener_def isinstance_Exception_def)

text \<open>Two listeners; the first registers a third listener and raises a \<open>RuntimeError\<close>.
  The second is still called, the third is not, the failure is logged and the broadcast
  returns.\<close>

theorem broadcast_snapshot_witness:
  "isinstance_Exception ExceptionClass
   \<and> snd (broadcast
        (\<lambda>l ev ls. if l = 1 then ([Add 3], Some (ExceptionClass, Exn ''RuntimeError'' ''boom''))
                    else ([], None))
        \<lparr> event_type = ''step_update'', e_goal_id = ''g'', e_data = [] \<rparr>
        \<lparr> event_listeners = [1, 2], delivered = [], warnings = [] \<rparr>) = Inr ()
   \<and> delivered (fst (broadcast
        (\<lambda>l ev ls. if l = 1 then ([Add 3], Some (ExceptionClass, Exn ''RuntimeError'' ''boom''))
                    else ([], None))
        \<lparr> event_type = ''step_update'', e_goal_id = ''g'', e_data = [] \<rparr>
        \<lparr> event_listeners = [1, 2], delivered = [], warnings = [] \<rparr>))
      = [(1, \<lparr> event_type = ''step_update'', e_goal_id = ''g'', e_data = [] \<rparr>),
         (2, \<lparr> event_type = ''step_update'', e_goal_id = ''g'', e_data = [] \<rparr>)]
   \<and> ''broadcast_error error=boom''
        \<in> set (warnings (fst (broadcast
        (\<lambda>l ev ls. if l = 1 then ([Add 3], Some (ExceptionClass, Exn ''RuntimeError'' ''boom''))
                    else ([], None))
        \<lparr> event_type = ''step_update'', e_goal_id = ''g'', e_data = [] \<rparr>
        \<lparr> event_listeners = [1, 2], delivered = [], warnings = [] \<rparr>)))
   \<and> event_listeners (fst (broadcast
        (\<lambda>l ev ls. if l = 1 then ([Add 3], Some (ExceptionClass, Exn ''RuntimeError'' ''boom''))
                    else ([], None))
        \<lparr> event_type = ''step_update'', e_goal_id = ''g'', e_data = [] \<rparr>
        \<lparr> event_listeners = [1, 2], delivered = [], warnings = [] \<rparr>)) = [1, 2, 3]"
proof -
  let ?react = "\<lambda>(l::nat) (ev::StreamEvent) (ls::nat list).
                  if l = 1 then ([Add 3], Some (ExceptionClass, Exn ''RuntimeError'' ''boom''))
                  else ([], None)"
  let ?ev = "\<lparr> event_type = ''step_update'', e_goal_id = ''g'', e_data = [] \<rparr>"
  let ?b = "\<lparr> event_listeners = [1, 2], delivered = [], warnings = [] \<rparr>"
  have h: "\<forall>l \<in> set (event_listeners ?b). \<forall>xs c e.
             snd (?react l ?ev xs) = Some (c, e) \<longrightarrow> isinstance_Exception c"
    by (simp add: isinstance_Exception_def)
  have always: "\<forall>xs. snd (?react 1 ?ev xs) = Some (ExceptionClass, Exn ''RuntimeError'' ''boom'')"
    by simp
  from broadcast_snapshot [of ?react ?ev ?b] obtain b' r n where
    res: "broadcast ?react ?ev ?b = (b', r)"
    and d: "delivered b' = delivered ?b @ map (\<lambda>l. (l, ?ev)) (take n (event_listeners ?b))"
    and rn: "r = Inr () \<longrightarrow> n = length (event_listeners ?b)"
    and ln: "\<forall>l c e. l \<in> set (take n (event_listeners ?b)) \<longrightarrow> isinstance_Exception c \<longrightarrow>
            (\<forall>xs. snd (?react l ?ev xs) = Some (c, e)) \<longrightarrow>
            (''broadcast_error error='' @ exn_str e) \<in> set (warnings b')"
    and ret: "(\<forall>l \<in> set (event_listeners ?b). \<forall>xs c e.
             snd (?react l ?ev xs) = Some (c, e) \<longrightarrow> isinstance_Exception c) \<longrightarrow> r = Inr ()"
    by blast
  from ret h have r: "r = Inr ()" by blast
  with rn have n: "n = 2" by simp
  from d n have dd: "delivered b' = [(1, ?ev), (2, ?ev)]" by simp
  have "(1::nat) \<in> set (take n (event_listeners ?b))" using n by simp
  moreover have "isinstance_Exception ExceptionClass" by (simp add: isinstance_Exception_def)
  ultimately have "(''broadcast_error error='' @ exn_str (Exn ''RuntimeError'' ''boom''))
                     \<in> set (warnings b')" using ln always by blast
  then have ww: "''broadcast_error error=boom'' \<in> set (warnings b')" by simp
  have el: "event_listeners (fst (broadcast ?react ?ev ?b)) = [1, 2, 3]"
    by (simp add: broadcast_def call_listener_def add_event_listener_def isinstance_Exception_def)
  have ie: "isinstance_Exception ExceptionClass" by (simp add: isinstance_Exception_def)
  from ie res r dd ww el show ?thesis by simp
qed

section \<open>Capability gateway: the shape of failures\<close>




section \<open>Generation gateway: retries, fallback, aggregate failure\<close>

lemma range_attempts: "[0..<max_retries_per_provider] = [0, 1, 2]"
  by (simp add: max_retries_per_provider_def upt_rec)

lemma attempt_loop_unrolled:
  "attempt_loop env p [0..<max_retries_per_provider] =
     (case ainvoke env p 0 of
        Returned r \<Rightarrow> ([Invoke p 0], Inr (Some r))
      | Raised e0 rp0 \<Rightarrow>
          if \<not> is_rate_limit e0 then ([Invoke p 0], Inl (e0, rp0))
          else
            (case ainvoke env p 1 of
               Returned r \<Rightarrow> ([Invoke p 0, Sleep 5, Invoke p 1], Inr (Some r))
             | Raised e1 rp1 \<Rightarrow>
                 if \<not> is_rate_limit e1 then ([Invoke p 0, Sleep 5, Invoke p 1], Inl (e1, rp1))
                 else
                   (case ainvoke env p 2 of
                      Returned r \<Rightarrow>
                        ([Invoke p 0, Sleep 5, Invoke p 1, Sleep 10, Invoke p 2], Inr (Some r))
                    | Raised e2 rp2 \<Rightarrow>
                        ([Invoke p 0, Sleep 5, Invoke p 1, Sleep 10, Invoke p 2], Inl (e2, rp2)))))"
  unfolding range_attempts
  by (simp add: max_retries_per_provider_def split: invoke_result.splits)

lemma attempt_loop_characterised:
  "1 \<le> attempts_made env p \<and> attempts_made env p \<le> 3
   \<and> fst (attempt_loop env p [0..<max_retries_per_provider])
       = take (2 * attempts_made env p - 1) [Invoke p 0, Sleep 5, Invoke p 1, Sleep 10, Invoke p 2]
   \<and> (\<forall>k < attempts_made env p - 1. \<exists>e rp. ainvoke env p k = Raised e rp \<and> is_rate_limit e)
   \<and> snd (attempt_loop env p [0..<max_retries_per_provider])
       = (case ainvoke env p (attempts_made env p - 1) of
            Returned r \<Rightarrow> Inr (Some r) | Raised e rp \<Rightarrow> Inl (e, rp))
   \<and> (attempts_made env p < 3 \<longrightarrow>
        (\<forall>e rp. ainvoke env p (attempts_made env p - 1) = Raised e rp \<longrightarrow> \<not> is_rate_limit e))"
  unfolding attempt_loop_unrolled attempts_made_def
  by (auto split: invoke_result.splits simp: less_Suc_eq numeral_2_eq_2)

lemma try_provider_raises:
  assumes "get_or_create env p = None"
    and "snd (attempt_loop env p [0..<max_retries_per_provider]) = Inl err"
  shows "try_provider env prompt gid at p w =
           (w \<lparr> active_provider := Some p,
                actions := actions w @ (if p = GEMINI then [Sleep 4] else [])
                             @ fst (attempt_loop env p [0..<max_retries_per_provider]) \<rparr>, Inl err)"
  using assms by (cases "attempt_loop env p [0..<max_retries_per_provider]")
    (simp add: try_provider_def Let_def)

text \<open>
  Claim C7. For one provider the gateway makes between one and three invocations. It
  makes a further one only after an invocation raised a rate-limit error (a message with
  429, resourceexhausted or too many requests), and sleeps \<open>5 * (attempt + 1)\<close> seconds
  before it: 5, then 10. The outcome is that of the last invocation made. An invocation
  that raises any other error is the last one for that provider, and whenever the
  provider's turn ends with an exception \<open>generate\<close> goes on with the next provider of
  the chain, remembering that exception as the last error.
\<close>

theorem provider_retry_policy:
  "(\<exists>n. 1 \<le> n \<and> n \<le> 3
      \<and> fst (attempt_loop env p [0..<max_retries_per_provider])
          = take (2 * n - 1) [Invoke p 0, Sleep 5, Invoke p 1, Sleep 10, Invoke p 2]
      \<and> (\<forall>k < n - 1. \<exists>e rp. ainvoke env p k = Raised e rp \<and> is_rate_limit e)
      \<and> snd (attempt_loop env p [0..<max_retries_per_provider])
          = (case ainvoke env p (n - 1) of
               Returned r \<Rightarrow> Inr (Some r) | Raised e rp \<Rightarrow> Inl (e, rp))
      \<and> (n < 3 \<longrightarrow> (\<forall>e rp. ainvoke env p (n - 1) = Raised e rp \<longrightarrow> \<not> is_rate_limit e)))
   \<and> (\<forall>e rp. ainvoke env p 0 = Raised e rp \<longrightarrow> \<not> is_rate_limit e \<longrightarrow>
         attempt_loop env p [0..<max_retries_per_provider] = ([Invoke p 0], Inl (e, rp)))
   \<and> (\<forall>err. get_or_create env p = None \<longrightarrow>
         snd (attempt_loop env p [0..<max_retries_per_provider]) = Inl err \<longrightarrow>
         generate_from env prompt gid at last_error (p # ps) w =
           generate_from env prompt gid at (Some err) ps
             (w \<lparr> active_provider := Some p,
                  actions := actions w @ (if p = GEMINI then [Sleep 4] else [])
                               @ fst (attempt_loop env p [0..<max_retries_per_provider]) \<rparr>))"
proof (intro conjI)
  show "\<exists>n. 1 \<le> n \<and> n \<le> 3
      \<and> fst (attempt_loop env p [0..<max_retries_per_provider])
          = take (2 * n - 1) [Invoke p 0, Sleep 5, Invoke p 1, Sleep 10, Invoke p 2]
      \<and> (\<forall>k < n - 1. \<exists>e rp. ainvoke env p k = Raised e rp \<and> is_rate_limit e)
      \<and> snd (attempt_loop env p [0..<max_retries_per_provider])
          = (case ainvoke env p (n - 1) of
               Returned r \<Rightarrow> Inr (Some r) | Raised e rp \<Rightarrow> Inl (e, rp))
      \<and> (n < 3 \<longrightarrow> (\<forall>e rp. ainvoke env p (n - 1) = Raised e rp \<longrightarrow> \<not> is_rate_limit e))"
    using attempt_loop_characterised [of env p] by blast
next
  show "\<forall>e rp. ainvoke env p 0 = Raised e rp \<longrightarrow> \<not> is_rate_limit e \<longrightarrow>
         attempt_loop env p [0..<max_retries_per_provider] = ([Invoke p 0], Inl (e, rp))"
    by (simp add: attempt_loop_unrolled)
next
  show "\<forall>err. get_or_create env p = None \<longrightarrow>
         snd (attempt_loop env p [0..<max_retries_per_provider]) = Inl err \<longrightarrow>
         generate_from env prompt gid at last_error (p # ps) w =
           generate_from env prompt gid at (Some err) ps
             (w \<lparr> active_provider := Some p,
                  actions := actions w @ (if p = GEMINI then [Sleep 4] else [])
                               @ fst (attempt_loop env p [0..<max_retries_per_provider]) \<rparr>)"
    by (simp add: try_provider_raises)
qed

lemma try_provider_logs:
  "try_provider env prompt gid at p w = (w', r) \<Longrightarrow> agent_logs w' = agent_logs w"
  by (auto simp: try_provider_def Let_def split: option.splits prod.splits sum.splits if_splits)

lemma try_provider_outcome:
  "try_provider env prompt gid at p w = (w', r) \<Longrightarrow> provider_outcome env p = Some err \<Longrightarrow> r = Inl err"
  by (auto simp: try_provider_def provider_outcome_def Let_def split: option.splits prod.splits sum.splits if_splits)

lemma generate_from_all_fail:
  assumes "list_all (\<lambda>p. provider_outcome env p \<noteq> None) chain"
  shows "\<exists>w'. generate_from env prompt gid at last_error chain w =
                 (w', Inl (all_providers_failed env prompt gid at
                             (if chain = [] then last_error else provider_outcome env (last chain))))
               \<and> agent_logs w' = agent_logs w"
  using assms
proof (induction chain arbitrary: last_error w)
  case Nil
  then show ?case by simp
next
  case (Cons p ps)
  from Cons.prems obtain err where err: "provider_outcome env p = Some err" by auto
  obtain w1 r where tp: "try_provider env prompt gid at p w = (w1, r)"
    by (cases "try_provider env prompt gid at p w")
  from tp err have r: "r = Inl err" by (rule try_provider_outcome)
  from tp have l: "agent_logs w1 = agent_logs w" by (rule try_provider_logs)
  from Cons.prems have "list_all (\<lambda>p. provider_outcome env p \<noteq> None) ps" by simp
  from Cons.IH [OF this, of "Some err" w1] tp r l err show ?case by auto
qed

text \<open>
  Claim C5. When every provider of a non-empty chain fails, \<open>generate\<close> raises a
  \<open>RuntimeError\<close> whose message ends with the detail of the last provider's exception
  (its \<open>str\<close>, or its \<open>repr\<close> when the \<open>str\<close> is empty). The table of agent logs is left
  as it was, by \<open>generate\<close> and by the agent that called it: the \<open>AgentLog\<close> carrying
  the error is built and dropped, so the part of the claim that says it is still
  recorded does not hold of the code.
\<close>

theorem generate_all_providers_fail:
  assumes "chain \<noteq> []"
    and "list_all (\<lambda>p. provider_outcome env p \<noteq> None) chain"
  shows "\<exists>e rp.
           provider_outcome env (last chain) = Some (e, rp)
           \<and> (\<exists>w'. generate env chain prompt gid at w =
                      (w', Inl (Exn ''RuntimeError''
                                  (''All LLM providers failed. Last error: ''
                                     @ (if exn_str e \<noteq> [] then exn_str e else rp))))
                    \<and> agent_logs w' = agent_logs w)
           \<and> (\<exists>w'. replanner_generate env chain prompt gid plan failed_step w =
                      (w', Inl (Exn ''RuntimeError''
                                  (''All LLM providers failed. Last error: ''
                                     @ (if exn_str e \<noteq> [] then exn_str e else rp))))
                    \<and> agent_logs w' = agent_logs w)"
proof -
  from assms have "provider_outcome env (last chain) \<noteq> None"
    by (simp add: list_all_iff)
  then obtain e rp where o: "provider_outcome env (last chain) = Some (e, rp)" by auto
  have a: "all_providers_failed env prompt gid x (Some (e, rp)) =
      Exn ''RuntimeError'' (''All LLM providers failed. Last error: ''
                              @ (if exn_str e \<noteq> [] then exn_str e else rp))" for x
    by (simp add: all_providers_failed_def Let_def)
  have g: "\<exists>w'. generate env chain prompt gid x w =
      (w', Inl (Exn ''RuntimeError'' (''All LLM providers failed. Last error: ''
                              @ (if exn_str e \<noteq> [] then exn_str e else rp))))
      \<and> agent_logs w' = agent_logs w" for x
  proof -
    from generate_from_all_fail [OF assms(2), of prompt gid x None w] assms(1) o
    obtain w' where "generate_from env prompt gid x None chain w =
        (w', Inl (all_providers_failed env prompt gid x (Some (e, rp))))"
      and "agent_logs w' = agent_logs w" by auto
    then show ?thesis unfolding generate_def a by blast
  qed
  from g [of "''replanner''"] obtain w2 where
    "generate env chain prompt gid ''replanner'' w =
      (w2, Inl (Exn ''RuntimeError'' (''All LLM providers failed. Last error: ''
                              @ (if exn_str e \<noteq> [] then exn_str e else rp))))"
    and "agent_logs w2 = agent_logs w" by blast
  then have r: "\<exists>w'. replanner_generate env chain prompt gid plan failed_step w =
      (w', Inl (Exn ''RuntimeError'' (''All LLM providers failed. Last error: ''
                              @ (if exn_str e \<noteq> [] then exn_str e else rp))))
      \<and> agent_logs w' = agent_logs w"
    unfolding replanner_generate_def by simp
  from o g [of at] r show ?thesis by blast
qed

lemma ex_down_outcomes:
  "provider_outcome ex_env_down OLLAMA = Some (Exn ''ConnectError'' ''connection refused'', ''ConnectError('connection refused')'')"
  "provider_outcome ex_env_down GEMINI = Some (Exn ''TimeoutError'' [], ''TimeoutError()'')"
  "provider_outcome ex_env_down OPENAI = Some (Exn ''ValueError'' ''missing api key'', ''ValueError('missing api key')'')"
  by (simp_all add: provider_outcome_def ex_env_down_def attempt_loop_unrolled is_rate_limit_def lower_def ascii_lower_def)

text \<open>All three providers fail; the chain ends with the provider that times out.\<close>

theorem generate_all_providers_fail_witness:
  "[OLLAMA, OPENAI, GEMINI] \<noteq> []
   \<and> list_all (\<lambda>p. provider_outcome ex_env_down p \<noteq> None) [OLLAMA, OPENAI, GEMINI]
   \<and> snd (generate ex_env_down [OLLAMA, OPENAI, GEMINI] ''replan'' ''g1'' ''replanner'' ex_world)
       = Inl (Exn ''RuntimeError'' ''All LLM providers failed. Last error: TimeoutError()'')
   \<and> agent_logs (fst (generate ex_env_down [OLLAMA, OPENAI, GEMINI] ''replan'' ''g1'' ''replanner'' ex_world))
       = []"
proof -
  have h1: "[OLLAMA, OPENAI, GEMINI] \<noteq> []" by simp
  have h2: "list_all (\<lambda>p. provider_outcome ex_env_down p \<noteq> None) [OLLAMA, OPENAI, GEMINI]"
    by (simp add: ex_down_outcomes)
  from generate_all_providers_fail
         [OF h1 h2, of "''replan''" "''g1''" "''replanner''" ex_world ex_plan ex_failed]
  obtain w' where
    "generate ex_env_down [OLLAMA, OPENAI, GEMINI] ''replan'' ''g1'' ''replanner'' ex_world
       = (w', Inl (Exn ''RuntimeError'' ''All LLM providers failed. Last error: TimeoutError()''))"
    and "agent_logs w' = agent_logs ex_world"
    by (auto simp: ex_down_outcomes)
  with h2 show ?thesis by (simp add: ex_world_def)
qed

text \<open>A refused connection is not retried; two rate-limit errors are, after 5 and 10
  seconds (the 4 seconds are the delay before every call of that provider).\<close>

theorem provider_retry_policy_witness:
  "ainvoke ex_env OLLAMA 0 = Raised (Exn ''ConnectError'' ''connection refused'') ''ConnectError('connection refused')''
   \<and> \<not> is_rate_limit (Exn ''ConnectError'' ''connection refused'')
   \<and> attempt_loop ex_env OLLAMA [0..<max_retries_per_provider]
       = ([Invoke OLLAMA 0], Inl (Exn ''ConnectError'' ''connection refused'', ''ConnectError('connection refused')''))
   \<and> get_or_create ex_env OLLAMA = None
   \<and> is_rate_limit (Exn ''ResourceExhausted'' ''429 Too Many Requests'')
   \<and> fst (attempt_loop ex_env GEMINI [0..<max_retries_per_provider])
       = [Invoke GEMINI 0, Sleep 5, Invoke GEMINI 1, Sleep 10, Invoke GEMINI 2]
   \<and> actions (fst (generate ex_env [OLLAMA, GEMINI, OPENAI] ''plan'' ''g1'' ''planner'' ex_world))
       = [Invoke OLLAMA 0, Sleep 4, Invoke GEMINI 0, Sleep 5, Invoke GEMINI 1, Sleep 10, Invoke GEMINI 2]"
proof -
  have nr: "\<not> is_rate_limit (Exn ''ConnectError'' ''connection refused'')"
    by (simp add: is_rate_limit_def lower_def ascii_lower_def)
  have rl: "is_rate_limit (Exn ''ResourceExhausted'' ''429 Too Many Requests'')"
    by (simp add: is_rate_limit_def lower_def ascii_lower_def)
  have a0: "ainvoke ex_env OLLAMA 0 = Raised (Exn ''ConnectError'' ''connection refused'') ''ConnectError('connection refused')''"
    by (simp add: ex_env_def)
  have g: "get_or_create ex_env OLLAMA = None" by (simp add: ex_env_def)
  note pol = provider_retry_policy [of ex_env OLLAMA "''plan''" "''g1''" "''planner''" None "[GEMINI, OPENAI]" ex_world]
  from pol a0 nr have al: "attempt_loop ex_env OLLAMA [0..<max_retries_per_provider]
       = ([Invoke OLLAMA 0], Inl (Exn ''ConnectError'' ''connection refused'', ''ConnectError('connection refused')''))"
    by blast
  have gm: "attempt_loop ex_env GEMINI [0..<max_retries_per_provider]
       = ([Invoke GEMINI 0, Sleep 5, Invoke GEMINI 1, Sleep 10, Invoke GEMINI 2],
          Inr (Some \<lparr> content = ''{}'', usage_metadata = None \<rparr>))"
    using rl by (simp add: attempt_loop_unrolled ex_env_def)
  from pol g al have "generate_from ex_env ''plan'' ''g1'' ''planner'' None ([OLLAMA, GEMINI, OPENAI]) ex_world =
     generate_from ex_env ''plan'' ''g1'' ''planner''
       (Some (Exn ''ConnectError'' ''connection refused'', ''ConnectError('connection refused')'')) [GEMINI, OPENAI]
       (ex_world \<lparr> active_provider := Some OLLAMA, actions := actions ex_world @ [] @ [Invoke OLLAMA 0] \<rparr>)"
    by simp
  moreover have "get_or_create ex_env GEMINI = None" by (simp add: ex_env_def)
  ultimately have "actions (fst (generate ex_env [OLLAMA, GEMINI, OPENAI] ''plan'' ''g1'' ''planner'' ex_world))
       = [Invoke OLLAMA 0, Sleep 4, Invoke GEMINI 0, Sleep 5, Invoke GEMINI 1, Sleep 10, Invoke GEMINI 2]"
    by (simp only: generate_def) (simp add: try_provider_def gm Let_def ex_world_def)
  with nr rl a0 g al gm show ?thesis by simp
qed
section \<open>Engine: the events of the execution loop\<close>

lemma engine_event_simps [simp]:
  "engine_event (step_update gid sid kvs)"
  "engine_event (completed_event gid s res)"
  "engine_event (failed_event gid s ev)"
  "engine_event (retrying_event gid s)"
  "engine_event (replanning_event gid s)"
  "engine_event (plan_created_event gid p extra)"
  by (simp_all add: engine_event_def step_update_def completed_event_def failed_event_def
      retrying_event_def replanning_event_def plan_created_event_def)

lemma run_sequential_events:
  "run_sequential ag gid ctx it plan i = (evs, r) \<Longrightarrow> list_all engine_event evs"
  by (auto simp: run_sequential_def Let_def split: sum.splits if_splits)

lemma settle_one_events:
  "settle_one ag gid it st i res = (evs, r) \<Longrightarrow> list_all engine_event evs"
  by (auto simp: settle_one_def Let_def split: sum.splits if_splits)

lemma settle_results_events:
  "settle_results ag gid it st rs = (evs, r) \<Longrightarrow> list_all engine_event evs"
proof (induction ag gid it st rs arbitrary: evs r rule: settle_results.induct)
  case (1 ag gid it st)
  then show ?case by simp
next
  case (2 ag gid it st i e rs)
  then show ?case by simp
next
  case (3 ag gid it st i exec_result rs)
  obtain evs1 r1 where one: "settle_one ag gid it st i exec_result = (evs1, r1)"
    by (cases "settle_one ag gid it st i exec_result")
  then have e1: "list_all engine_event evs1" by (rule settle_one_events)
  show ?case
  proof (cases r1)
    case (Inl e)
    with "3.prems" one e1 show ?thesis by simp
  next
    case (Inr st1)
    obtain evs2 r2 where rest: "settle_results ag gid it st1 rs = (evs2, r2)"
      by (cases "settle_results ag gid it st1 rs")
    from "3.IH" [OF one [symmetric] Inr rest] have "list_all engine_event evs2" .
    with "3.prems" one Inr rest e1 show ?thesis by auto
  qed
qed

lemma replan_batch_events:
  "replan_batch ag gid it ready st = (evs, p) \<Longrightarrow> list_all engine_event evs"
  by (auto simp: replan_batch_def Let_def split: if_splits option.splits prod.splits)

lemma run_parallel_events:
  "run_parallel ag gid ctx it plan ready = (evs, r) \<Longrightarrow> list_all engine_event evs"
  by (auto simp: run_parallel_def Let_def list_all_iff
      split: prod.splits sum.splits
      dest!: settle_results_events replan_batch_events)

lemma loop_body_events:
  "loop_body ag gid ctx it plan = (evs, r) \<Longrightarrow> list_all engine_event evs"
  by (auto simp: loop_body_def Let_def split: if_splits prod.splits sum.splits
      dest: run_parallel_events run_sequential_events)

lemma execute_plan_from_events:
  "execute_plan_from ag gid ctx iteration plan = (evs, r) \<Longrightarrow> list_all engine_event evs"
proof (induction ag gid ctx iteration plan arbitrary: evs r rule: execute_plan_from.induct)
  case (1 ag gid ctx iteration plan)
  show ?case
  proof (cases "\<not> is_complete plan \<and> iteration < max_plan_iterations")
    case False
    with "1.prems" have "evs = []"
      by (subst (asm) execute_plan_from.simps) auto
    then show ?thesis by simp
  next
    case True
    obtain evs1 r1 where lb: "loop_body ag gid ctx (iteration + 1) plan = (evs1, r1)"
      by (cases "loop_body ag gid ctx (iteration + 1) plan")
    then have e1: "list_all engine_event evs1" by (rule loop_body_events)
    show ?thesis
    proof (cases r1)
      case (Inl e)
      with "1.prems" True lb have "evs = evs1"
        by (subst (asm) execute_plan_from.simps) auto
      with e1 show ?thesis by simp
    next
      case (Inr pb)
      obtain plan' brk where pb: "pb = (plan', brk)" by (cases pb)
      show ?thesis
      proof (cases brk)
        case True
        with "1.prems" \<open>\<not> is_complete plan \<and> iteration < max_plan_iterations\<close> lb Inr pb
        have "evs = evs1" by (subst (asm) execute_plan_from.simps) auto
        with e1 show ?thesis by simp
      next
        case False
        obtain evs2 r2 where rec: "execute_plan_from ag gid ctx (iteration + 1) plan' = (evs2, r2)"
          by (cases "execute_plan_from ag gid ctx (iteration + 1) plan'")
        from "1.IH" [OF \<open>\<not> is_complete plan \<and> iteration < max_plan_iterations\<close>
                        lb [symmetric] Inr pb [symmetric] False rec]
        have e2: "list_all engine_event evs2" .
        from "1.prems" \<open>\<not> is_complete plan \<and> iteration < max_plan_iterations\<close> lb Inr pb False rec
        have "evs = evs1 @ evs2" by (subst (asm) execute_plan_from.simps) auto
        with e1 e2 show ?thesis by simp
      qed
    qed
  qed
qed

lemma execute_plan_events:
  "execute_plan ag plan gid ctx = (evs, r) \<Longrightarrow> list_all engine_event evs"
  unfolding execute_plan_def by (rule execute_plan_from_events)

section \<open>Goal processing: the demo branch and the final status\<close>

text \<open>
  Claim C4, on the code. For every goal whose input contains \<open>DEMO-SAFE-001\<close> in any
  letter case, \<open>process_goal\<close> calls neither planner nor executor nor evaluator, but it
  does not reach the mock execution either: the first \<open>Step(...)\<close> of the mock plan omits
  the required fields \<open>description\<close> and \<open>expected_outcome\<close>, the constructor raises, and
  the outer handler ends the goal in status failed after the events \<open>goal_status\<close> and
  \<open>error\<close>. The goal never ends completed.
\<close>

theorem demo_safe_mode_ends_failed:
  assumes "contains (upper (raw_input goal)) ''DEMO-SAFE-001''"
  shows "process_goal ag goal =
           ([goal_event ''goal_status'' (g_id goal) [(''status'', JStr ''planning'')],
             goal_event ''error'' (g_id goal)
               [(''error'', JStr ''validation errors for Step: missing description expected_outcome''),
                (''component'', JStr ''orchestrator'')]],
            goal \<lparr> g_status := GOAL_FAILED, g_updated_at := goal_clock ag 3 \<rparr>)"
  using assms
  by (simp add: process_goal_def demo_safe_mode_def Step_init_def on_exception_def
      update_status_def Let_def)

theorem demo_safe_mode_ends_failed_witness:
  "contains (upper (raw_input ex_demo_goal)) ''DEMO-SAFE-001''
   \<and> g_status (snd (process_goal ex_agents ex_demo_goal)) = GOAL_FAILED
   \<and> map event_type (fst (process_goal ex_agents ex_demo_goal)) = [''goal_status'', ''error'']"
proof -
  have h: "contains (upper (raw_input ex_demo_goal)) ''DEMO-SAFE-001''"
    unfolding ex_demo_goal_def by code_simp
  from demo_safe_mode_ends_failed [OF h, of ex_agents] h show ?thesis
    by (simp add: goal_event_def)
qed

lemma is_complete_iff:
  "is_complete p \<longleftrightarrow> (\<forall>s\<in>set (steps p). status s = COMPLETED \<or> status s = SKIPPED)"
  by (simp add: is_complete_def list_all_iff)

text \<open>
  Claim C3. \<open>is_complete\<close> holds iff every step is completed or skipped, so one failed or
  pending step makes it false. When the execution loop of an ordinary goal returns a
  final plan, \<open>process_goal\<close> ends the goal completed and emits \<open>goal_completed\<close> as its last
  event if the final plan is complete, and ends it failed and emits \<open>goal_failed\<close> if it is
  not; a \<open>goal_completed\<close> event is among the events iff the final plan is complete, a
  \<open>goal_failed\<close> event iff it is not. (The loop always returns or raises:
  \<open>execute_plan_from\<close> is a total function.)
\<close>

theorem goal_completed_iff_plan_complete:
  "(is_complete p \<longleftrightarrow> (\<forall>s\<in>set (steps p). status s = COMPLETED \<or> status s = SKIPPED))
   \<and> ((\<exists>s\<in>set (steps p). status s = FAILED \<or> status s = PENDING) \<longrightarrow> \<not> is_complete p)
   \<and> (\<not> contains (upper (raw_input goal)) ''DEMO-SAFE-001'' \<longrightarrow>
        create_plan ag (g_id goal) (raw_input goal) = Inr plan \<longrightarrow>
        execute_plan ag plan (g_id goal) (raw_input goal) = (evs, Inr final_plan) \<longrightarrow>
          g_status (snd (process_goal ag goal))
            = (if is_complete final_plan then GOAL_COMPLETED else GOAL_FAILED)
          \<and> fst (process_goal ag goal) =
                [goal_event ''goal_status'' (g_id goal)
                   [(''status'', JStr ''planning''),
                    (''message'', JStr ''Decomposing goal into execution plan...'')],
                 plan_created_event (g_id goal) plan []]
                @ evs
                @ [if is_complete final_plan then
                     goal_event ''goal_completed'' (g_id goal)
                       [(''status'', JStr ''completed''),
                        (''message'', JStr ''All steps completed successfully'')]
                   else
                     goal_event ''goal_failed'' (g_id goal)
                       [(''status'', JStr ''failed''),
                        (''message'', JStr ''Goal could not be completed after all retries'')]]
          \<and> ((\<exists>e\<in>set (fst (process_goal ag goal)). event_type e = ''goal_completed'')
                 \<longleftrightarrow> is_complete final_plan)
          \<and> ((\<exists>e\<in>set (fst (process_goal ag goal)). event_type e = ''goal_failed'')
                 \<longleftrightarrow> \<not> is_complete final_plan))"
proof (intro conjI impI)
  show "is_complete p \<longleftrightarrow> (\<forall>s\<in>set (steps p). status s = COMPLETED \<or> status s = SKIPPED)"
    by (rule is_complete_iff)
next
  assume "\<exists>s\<in>set (steps p). status s = FAILED \<or> status s = PENDING"
  then show "\<not> is_complete p" by (fastforce simp: is_complete_iff)
next
  assume a: "\<not> contains (upper (raw_input goal)) ''DEMO-SAFE-001''"
    "create_plan ag (g_id goal) (raw_input goal) = Inr plan"
    "execute_plan ag plan (g_id goal) (raw_input goal) = (evs, Inr final_plan)"
  then show "g_status (snd (process_goal ag goal))
            = (if is_complete final_plan then GOAL_COMPLETED else GOAL_FAILED)"
    by (simp add: process_goal_def update_status_def Let_def)
  from a show "fst (process_goal ag goal) =
                [goal_event ''goal_status'' (g_id goal)
                   [(''status'', JStr ''planning''),
                    (''message'', JStr ''Decomposing goal into execution plan...'')],
                 plan_created_event (g_id goal) plan []]
                @ evs
                @ [if is_complete final_plan then
                     goal_event ''goal_completed'' (g_id goal)
                       [(''status'', JStr ''completed''),
                        (''message'', JStr ''All steps completed successfully'')]
                   else
                     goal_event ''goal_failed'' (g_id goal)
                       [(''status'', JStr ''failed''),
                        (''message'', JStr ''Goal could not be completed after all retries'')]]"
    (is "_ = ?all")
    by (simp add: process_goal_def update_status_def Let_def)
  then have eq: "set (fst (process_goal ag goal)) = set ?all" by simp
  from a(3) have "list_all engine_event evs" by (rule execute_plan_events)
  then have ev: "\<forall>e\<in>set evs. event_type e \<noteq> ''goal_completed'' \<and> event_type e \<noteq> ''goal_failed''"
    by (auto simp: list_all_iff engine_event_def)
  show "(\<exists>e\<in>set (fst (process_goal ag goal)). event_type e = ''goal_completed'')
          \<longleftrightarrow> is_complete final_plan"
    unfolding eq using ev by (auto simp: goal_event_def plan_created_event_def)
  show "(\<exists>e\<in>set (fst (process_goal ag goal)). event_type e = ''goal_failed'')
          \<longleftrightarrow> \<not> is_complete final_plan"
    unfolding eq using ev by (auto simp: goal_event_def plan_created_event_def)
qed

lemma ex_good_run:
  "\<exists>evs final. execute_plan ex_good_agents ex_good_plan ''g1'' ''Prepare for GATE in 4 weeks'' = (evs, Inr final) \<and> is_complete final"
proof -
  have "(case execute_plan ex_good_agents ex_good_plan ''g1'' ''Prepare for GATE in 4 weeks'' of
          (evs, Inr final) \<Rightarrow> is_complete final | _ \<Rightarrow> False)"
    by code_simp
  then show ?thesis by (auto split: prod.splits sum.splits)
qed

text \<open>A two-step plan whose steps both pass evaluation: the goal ends completed.\<close>

theorem goal_completed_iff_plan_complete_witness:
  "\<not> contains (upper (raw_input ex_goal)) ''DEMO-SAFE-001''
   \<and> create_plan ex_good_agents (g_id ex_goal) (raw_input ex_goal) = Inr ex_good_plan
   \<and> (\<exists>evs final.
         execute_plan ex_good_agents ex_good_plan (g_id ex_goal) (raw_input ex_goal) = (evs, Inr final)
         \<and> is_complete final)
   \<and> g_status (snd (process_goal ex_good_agents ex_goal)) = GOAL_COMPLETED
   \<and> event_type (last (fst (process_goal ex_good_agents ex_goal))) = ''goal_completed''"
proof -
  have h1: "\<not> contains (upper (raw_input ex_goal)) ''DEMO-SAFE-001''"
    unfolding ex_goal_def by code_simp
  have h2: "create_plan ex_good_agents (g_id ex_goal) (raw_input ex_goal) = Inr ex_good_plan"
    by (simp add: ex_good_agents_def)
  have g: "g_id ex_goal = ''g1''" "raw_input ex_goal = ''Prepare for GATE in 4 weeks''"
    by (simp_all add: ex_goal_def)
  from ex_good_run obtain evs final where
    h3: "execute_plan ex_good_agents ex_good_plan (g_id ex_goal) (raw_input ex_goal) = (evs, Inr final)"
    and c: "is_complete final" unfolding g by blast
  from goal_completed_iff_plan_complete [of ex_good_plan ex_goal ex_good_agents ex_good_plan evs final]
    h1 h2 h3 c
  have "g_status (snd (process_goal ex_good_agents ex_goal)) = GOAL_COMPLETED"
    and "event_type (last (fst (process_goal ex_good_agents ex_goal))) = ''goal_completed''"
    by (simp_all add: goal_event_def)
  with h1 h2 h3 c show ?thesis by blast
qed

section \<open>Engine: failure handling, replanning, the retry bound\<close>

lemma apply_modifications_version:
  "apply_modifications pid now uuids p f rd = Inr p' \<Longrightarrow>
     version p' = version p + 1 \<and> is_active p' \<and> goal_id p' = goal_id p"
  by (auto simp: apply_modifications_def Let_def split: sum.splits if_splits)

lemma replan_version:
  "version (replan pid now uuids answer p f) = version p + 1
   \<and> is_active (replan pid now uuids answer p f)
   \<and> goal_id (replan pid now uuids answer p f) = goal_id p"
  by (auto simp: replan_def simple_retry_def split: sum.splits dest: apply_modifications_version)

lemma call_replan_version:
  "version (call_replan ag it p f ev res) = version p + 1
   \<and> is_active (call_replan ag it p f ev res)"
  by (simp add: call_replan_def replan_version)

lemma replan_other:
  assumes "i < length (steps p)" and "step_id (steps p ! i) \<noteq> step_id f"
  shows "i < length (steps (replan pid now uuids answer p f))
       \<and> status (steps (replan pid now uuids answer p f) ! i) = status (steps p ! i)
       \<and> retry_count (steps (replan pid now uuids answer p f) ! i) = retry_count (steps p ! i)
       \<and> max_retries (steps (replan pid now uuids answer p f) ! i) = max_retries (steps p ! i)"
proof -
  have sr: "i < length (steps (simple_retry pid now p f))
       \<and> steps (simple_retry pid now p f) ! i = steps p ! i"
    using assms by (rule simple_retry_frame)
  show ?thesis
  proof (cases answer)
    case (Inl e)
    with sr show ?thesis by (simp add: replan_def)
  next
    case (Inr rd)
    show ?thesis
    proof (cases "apply_modifications pid now uuids p f rd")
      case (Inl e)
      with Inr sr show ?thesis by (simp add: replan_def)
    next
      case r: (Inr p')
      from apply_modifications_nth [OF r assms(1)] obtain c where
        c: "copy_step (modified_by_id (rd_modified_steps rd)) (get_or (rd_strategy rd) ''retry'') f (steps p ! i) = Inr c"
        and l: "i < length (steps p')"
        and d: "steps p' ! i = c \<or> (\<exists>ids. steps p' ! i = reset_failed f ids c)" by blast
      from c assms(2) have o: "status c = status (steps p ! i) \<and> retry_count c = retry_count (steps p ! i) \<and> max_retries c = max_retries (steps p ! i)"
        by (rule copy_step_other)
      from c have "step_id c = step_id (steps p ! i)" by (rule copy_step_id)
      with assms(2) have "reset_failed f ids c = c" for ids by (simp add: reset_failed_def)
      with d have "steps p' ! i = c" by auto
      with o l Inr r show ?thesis by (simp add: replan_def)
    qed
  qed
qed

lemma set_step_simps [simp]:
  "length (steps (set_step p i s)) = length (steps p)"
  "version (set_step p i s) = version p"
  "steps (set_step p i s) = (steps p)[i := s]"
  by (simp_all add: set_step_def)

lemma settled_step_fields:
  "step_id (settled_step ag it i s res ev) = step_id s"
  "max_retries (settled_step ag it i s res ev) = max_retries s"
  by (simp_all add: settled_step_def Let_def mark_completed_def mark_failed_def mark_retrying_def)

lemma settled_step_failure:
  assumes "ev_result ev \<noteq> SUCCESS"
  shows "retry_count (settled_step ag it i s res ev) = retry_count s + 1"
    and "status (settled_step ag it i s res ev)
           = (if retry_count s + 1 \<ge> max_retries s then FAILED else PENDING)"
  using assms
  by (simp_all add: settled_step_def Let_def mark_completed_def mark_failed_def mark_retrying_def)

lemma settled_step_status_FAILED:
  "status (settled_step ag it i s res ev) = FAILED \<longleftrightarrow>
     ev_result ev \<noteq> SUCCESS \<and> retry_count s + 1 \<ge> max_retries s"
  by (simp add: settled_step_def Let_def mark_completed_def mark_failed_def mark_retrying_def)

lemma settle_one_shape:
  assumes "settle_one ag gid it st i res = (evs, Inr st')"
  shows "\<exists>ev. evaluate ag it i ((steps (b_plan st) ! i) \<lparr> status := EVALUATING \<rparr>) res = Inr ev
      \<and> b_plan st' = set_step (b_plan st) i (settled_step ag it i (steps (b_plan st) ! i) res ev)
      \<and> b_needs_replan st' = (b_needs_replan st \<or> status (settled_step ag it i (steps (b_plan st) ! i) res ev) = FAILED)
      \<and> b_last st' = Some (ev, res)"
proof (cases "evaluate ag it i ((steps (b_plan st) ! i) \<lparr> status := EVALUATING \<rparr>) res")
  case (Inl e)
  with assms show ?thesis by (simp add: settle_one_def Let_def)
next
  case (Inr ev)
  with assms show ?thesis
    by (auto simp: settle_one_def settled_step_def Let_def mark_completed_def mark_failed_def
        mark_retrying_def split: if_splits)
qed

lemma settle_results_frame:
  "settle_results ag gid it st rs = (evs, Inr st') \<Longrightarrow>
     length (steps (b_plan st')) = length (steps (b_plan st))
     \<and> version (b_plan st') = version (b_plan st)
     \<and> (\<forall>k. k \<notin> fst ` set rs \<longrightarrow> steps (b_plan st') ! k = steps (b_plan st) ! k)"
proof (induction ag gid it st rs arbitrary: evs rule: settle_results.induct)
  case (1 ag gid it st)
  then show ?case by simp
next
  case (2 ag gid it st i e rs)
  then show ?case by simp
next
  case (3 ag gid it st i exec_result rs)
  from "3.prems" obtain evs1 st1 evs2 where
    one: "settle_one ag gid it st i exec_result = (evs1, Inr st1)"
    and rest: "settle_results ag gid it st1 rs = (evs2, Inr st')"
    by (auto split: prod.splits sum.splits)
  from settle_one_shape [OF one] obtain ev where
    p1: "b_plan st1 = set_step (b_plan st) i (settled_step ag it i (steps (b_plan st) ! i) exec_result ev)"
    by blast
  from "3.IH" [OF one [symmetric] refl rest] p1 show ?case by simp
qed

lemma settle_results_settled:
  "settle_results ag gid it st rs = (evs, Inr st') \<Longrightarrow> distinct (map fst rs) \<Longrightarrow>
   \<forall>j\<in>fst ` set rs. j < length (steps (b_plan st)) \<Longrightarrow>
     (\<forall>j e. (j, Inl e) \<in> set rs \<longrightarrow> steps (b_plan st') ! j = steps (b_plan st) ! j)
     \<and> (\<forall>j res. (j, Inr res) \<in> set rs \<longrightarrow>
           (\<exists>ev. evaluate ag it j ((steps (b_plan st) ! j) \<lparr> status := EVALUATING \<rparr>) res = Inr ev
                \<and> steps (b_plan st') ! j = settled_step ag it j (steps (b_plan st) ! j) res ev))"
proof (induction ag gid it st rs arbitrary: evs rule: settle_results.induct)
  case (1 ag gid it st)
  then show ?case by simp
next
  case (2 ag gid it st i e rs)
  from "2.prems" have rest: "settle_results ag gid it st rs = (evs, Inr st')"
    and d: "distinct (map fst rs)" and ni: "i \<notin> fst ` set rs"
    and b: "\<forall>j\<in>fst ` set rs. j < length (steps (b_plan st))"
    by auto
  from settle_results_frame [OF rest] ni
  have same: "steps (b_plan st') ! i = steps (b_plan st) ! i" by blast
  from "2.IH" [OF rest d b] same ni show ?case by (auto simp: image_iff)
next
  case (3 ag gid it st i exec_result rs)
  from "3.prems"(1) obtain evs1 st1 evs2 where
    one: "settle_one ag gid it st i exec_result = (evs1, Inr st1)"
    and rest: "settle_results ag gid it st1 rs = (evs2, Inr st')"
    by (auto split: prod.splits sum.splits)
  from "3.prems" have d: "distinct (map fst rs)" and ni: "i \<notin> fst ` set rs"
    and il: "i < length (steps (b_plan st))"
    and b: "\<forall>j\<in>fst ` set rs. j < length (steps (b_plan st))"
    by auto
  from settle_one_shape [OF one] obtain ev where
    ev: "evaluate ag it i ((steps (b_plan st) ! i) \<lparr> status := EVALUATING \<rparr>) exec_result = Inr ev"
    and p1: "b_plan st1 = set_step (b_plan st) i (settled_step ag it i (steps (b_plan st) ! i) exec_result ev)"
    by blast
  from p1 b have b1: "\<forall>j\<in>fst ` set rs. j < length (steps (b_plan st1))" by simp
  note ih = "3.IH" [OF one [symmetric] refl rest d b1]
  from settle_results_frame [OF rest] ni
  have "steps (b_plan st') ! i = steps (b_plan st1) ! i" by blast
  with p1 il have here: "steps (b_plan st') ! i = settled_step ag it i (steps (b_plan st) ! i) exec_result ev"
    by simp
  have other: "steps (b_plan st1) ! j = steps (b_plan st) ! j" if "j \<in> fst ` set rs" for j
  proof -
    from that ni have "j \<noteq> i" by auto
    with p1 show ?thesis by simp
  qed
  show ?case
  proof (intro conjI allI impI)
    fix j e assume "(j, Inl e) \<in> set ((i, Inr exec_result) # rs)"
    then have m: "(j, Inl e) \<in> set rs" by simp
    then have "j \<in> fst ` set rs" by (force simp: image_iff)
    then have "steps (b_plan st1) ! j = steps (b_plan st) ! j" by (rule other)
    moreover from ih m have "steps (b_plan st') ! j = steps (b_plan st1) ! j" by blast
    ultimately show "steps (b_plan st') ! j = steps (b_plan st) ! j" by simp
  next
    fix j res assume "(j, Inr res) \<in> set ((i, Inr exec_result) # rs)"
    then consider "j = i" "res = exec_result" | "(j, Inr res) \<in> set rs" by auto
    then show "\<exists>ev. evaluate ag it j ((steps (b_plan st) ! j) \<lparr> status := EVALUATING \<rparr>) res = Inr ev
                \<and> steps (b_plan st') ! j = settled_step ag it j (steps (b_plan st) ! j) res ev"
    proof cases
      case 1
      with ev here show ?thesis by simp
    next
      case 2
      then have "j \<in> fst ` set rs" by (force simp: image_iff)
      then have o: "steps (b_plan st1) ! j = steps (b_plan st) ! j" by (rule other)
      from ih 2 have "\<exists>ev. evaluate ag it j ((steps (b_plan st1) ! j) \<lparr> status := EVALUATING \<rparr>) res = Inr ev
                \<and> steps (b_plan st') ! j = settled_step ag it j (steps (b_plan st1) ! j) res ev"
        by blast
      then show ?thesis unfolding o .
    qed
  qed
qed

lemma settle_results_needs_replan:
  "settle_results ag gid it st rs = (evs, Inr st') \<Longrightarrow> distinct (map fst rs) \<Longrightarrow>
   \<forall>j\<in>fst ` set rs. j < length (steps (b_plan st)) \<Longrightarrow>
     (b_needs_replan st' \<longleftrightarrow>
        b_needs_replan st \<or> (\<exists>j res. (j, Inr res) \<in> set rs \<and> status (steps (b_plan st') ! j) = FAILED))
     \<and> ((\<exists>j res. (j, Inr res) \<in> set rs) \<longrightarrow> b_last st' \<noteq> None)
     \<and> (b_last st \<noteq> None \<longrightarrow> b_last st' \<noteq> None)"
proof (induction ag gid it st rs arbitrary: evs rule: settle_results.induct)
  case (1 ag gid it st)
  then show ?case by simp
next
  case (2 ag gid it st i e rs)
  from "2.prems" have rest: "settle_results ag gid it st rs = (evs, Inr st')"
    and d: "distinct (map fst rs)"
    and b: "\<forall>j\<in>fst ` set rs. j < length (steps (b_plan st))"
    by auto
  from "2.IH" [OF rest d b] show ?case by auto
next
  case (3 ag gid it st i exec_result rs)
  from "3.prems"(1) obtain evs1 st1 evs2 where
    one: "settle_one ag gid it st i exec_result = (evs1, Inr st1)"
    and rest: "settle_results ag gid it st1 rs = (evs2, Inr st')"
    by (auto split: prod.splits sum.splits)
  from "3.prems" have d: "distinct (map fst rs)" and ni: "i \<notin> fst ` set rs"
    and il: "i < length (steps (b_plan st))"
    and b: "\<forall>j\<in>fst ` set rs. j < length (steps (b_plan st))"
    by auto
  from settle_one_shape [OF one] obtain ev where
    p1: "b_plan st1 = set_step (b_plan st) i (settled_step ag it i (steps (b_plan st) ! i) exec_result ev)"
    and n1: "b_needs_replan st1 = (b_needs_replan st \<or> status (settled_step ag it i (steps (b_plan st) ! i) exec_result ev) = FAILED)"
    and l1: "b_last st1 = Some (ev, exec_result)"
    by blast
  from p1 b have b1: "\<forall>j\<in>fst ` set rs. j < length (steps (b_plan st1))" by simp
  note ih = "3.IH" [OF one [symmetric] refl rest d b1]
  from settle_results_frame [OF rest] ni
  have "steps (b_plan st') ! i = steps (b_plan st1) ! i" by blast
  with p1 il have here: "steps (b_plan st') ! i = settled_step ag it i (steps (b_plan st) ! i) exec_result ev"
    by simp
  have mem: "(j, Inr res) \<in> set rs \<Longrightarrow> j \<noteq> i" for j res
    using ni by (force simp: image_iff)
  from ih l1 have last: "b_last st' \<noteq> None" by simp
  have "b_needs_replan st' \<longleftrightarrow>
        b_needs_replan st \<or> (\<exists>j res. (j, Inr res) \<in> set ((i, Inr exec_result) # rs)
                                  \<and> status (steps (b_plan st') ! j) = FAILED)"
    using ih n1 here mem by auto
  with last show ?case by simp
qed

lemma ready_indices_props:
  "distinct (ready_indices p)"
  "j \<in> set (ready_indices p) \<Longrightarrow> j < length (steps p)"
  "j \<in> set (ready_indices p) \<Longrightarrow> status (steps p ! j) = PENDING"
  by (auto simp: ready_indices_def)

lemma start_batch_frame:
  "length (steps (start_batch ag it ready plan)) = length (steps plan)
   \<and> version (start_batch ag it ready plan) = version plan
   \<and> (\<forall>j. j \<notin> set ready \<longrightarrow> steps (start_batch ag it ready plan) ! j = steps plan ! j)"
  unfolding start_batch_def
  by (induction ready arbitrary: plan) (auto simp: start_step_def)

lemma start_batch_nth:
  "distinct ready \<Longrightarrow> j \<in> set ready \<Longrightarrow> j < length (steps plan) \<Longrightarrow>
     steps (start_batch ag it ready plan) ! j = mark_in_progress (started_clock ag it j) (steps plan ! j)"
proof (induction ready arbitrary: plan)
  case Nil
  then show ?case by simp
next
  case (Cons i ready)
  have unf: "start_batch ag it (i # ready) plan = start_batch ag it ready (start_step ag it i plan)"
    by (simp add: start_batch_def)
  show ?case
  proof (cases "j = i")
    case True
    with Cons.prems have "j \<notin> set ready" by simp
    with start_batch_frame [of ag it ready "start_step ag it i plan"]
    have "steps (start_batch ag it ready (start_step ag it i plan)) ! j = steps (start_step ag it i plan) ! j"
      by blast
    with True Cons.prems unf show ?thesis by (simp add: start_step_def)
  next
    case False
    with Cons.prems have "j \<in> set ready" "distinct ready" by simp_all
    from Cons.IH [OF this(2,1), of "start_step ag it i plan"] Cons.prems False unf
    show ?thesis by (simp add: start_step_def)
  qed
qed

lemma find_first:
  "\<exists>x\<in>set xs. P x \<Longrightarrow> \<exists>y. find P xs = Some y \<and> y \<in> set xs \<and> P y"
  by (induction xs) auto

lemma run_sequential_shape:
  assumes "run_sequential ag gid ctx it plan i = (evs, Inr (plan', brk))"
    and "i < length (steps plan)"
  shows "\<exists>res ev.
      step_verdict ag ctx it (start_step ag it i plan) i = Inr (res, ev)
      \<and> (let p4 = set_step (start_step ag it i plan) i
                     (settled_step ag it i (steps (start_step ag it i plan) ! i) res ev)
         in if status (steps p4 ! i) = FAILED
            then plan' = call_replan ag it p4 (steps p4 ! i) ev res \<and> brk
            else plan' = p4 \<and> \<not> brk)"
proof -
  let ?s1 = "mark_in_progress (started_clock ag it i) (steps plan ! i)"
  let ?plan1 = "set_step plan i ?s1"
  have p1: "start_step ag it i plan = ?plan1" by (simp add: start_step_def)
  have n1: "steps ?plan1 ! i = ?s1" using assms(2) by simp
  obtain res where ex: "execute_step ag it i ?s1 (gather_previous_results ?plan1 ?s1) ctx = Inr res"
    using assms(1) by (cases "execute_step ag it i ?s1 (gather_previous_results ?plan1 ?s1) ctx")
      (simp_all add: run_sequential_def Let_def)
  obtain ev where ev: "evaluate ag it i (?s1 \<lparr> status := EVALUATING \<rparr>) res = Inr ev"
    using assms(1) ex by (cases "evaluate ag it i (?s1 \<lparr> status := EVALUATING \<rparr>) res")
      (simp_all add: run_sequential_def Let_def)
  have v: "step_verdict ag ctx it ?plan1 i = Inr (res, ev)"
    using ex ev n1 by (simp add: step_verdict_def)
  have "let p4 = set_step ?plan1 i (settled_step ag it i ?s1 res ev)
        in if status (steps p4 ! i) = FAILED
           then plan' = call_replan ag it p4 (steps p4 ! i) ev res \<and> brk
           else plan' = p4 \<and> \<not> brk"
    using assms ex ev
    by (auto simp: run_sequential_def Let_def settled_step_def mark_completed_def
        mark_failed_def mark_retrying_def split: if_splits)
  with v p1 n1 show ?thesis by auto
qed

lemma run_parallel_shape:
  assumes run: "run_parallel ag gid ctx it plan ready = (evs, Inr plan')"
    and dist: "distinct ready" and bound: "\<forall>j\<in>set ready. j < length (steps plan)"
  shows "\<exists>p4. batch_shape ag ctx it plan ready p4 plan'"
proof -
  let ?plan1 = "start_batch ag it ready plan"
  let ?rs = "gather_batch ag ctx it ready ?plan1"
  let ?st0 = "\<lparr> b_plan = ?plan1, b_needs_replan = False, b_last = None \<rparr>"
  from run obtain evs2 st where
    settle: "settle_results ag gid it ?st0 ?rs = (evs2, Inr st)"
    and pl: "plan' = snd (replan_batch ag gid it ready st)"
    by (auto simp: run_parallel_def Let_def split: prod.splits sum.splits)
  have fst_rs: "map fst ?rs = ready" by (simp add: gather_batch_def comp_def)
  have mem_rs: "(j, r) \<in> set ?rs \<longleftrightarrow> j \<in> set ready \<and>
      r = execute_step ag it j (steps ?plan1 ! j) (gather_previous_results ?plan1 (steps ?plan1 ! j)) ctx"
    for j r by (auto simp: gather_batch_def)
  have img: "fst ` set ?rs = set ready" using fst_rs by (metis set_map)
  from start_batch_frame [of ag it ready plan]
  have len1: "length (steps ?plan1) = length (steps plan)"
    and ver1: "version ?plan1 = version plan"
    and out1: "\<And>j. j \<notin> set ready \<Longrightarrow> steps ?plan1 ! j = steps plan ! j" by blast+
  have in1: "steps ?plan1 ! j = mark_in_progress (started_clock ag it j) (steps plan ! j)"
    if "j \<in> set ready" for j using dist that bound by (simp add: start_batch_nth)
  have d: "distinct (map fst ?rs)" using fst_rs dist by simp
  have b: "\<forall>j\<in>fst ` set ?rs. j < length (steps (b_plan ?st0))"
    using img bound len1 by simp
  from settle_results_frame [OF settle] img
  have len4: "length (steps (b_plan st)) = length (steps plan)"
    and ver4: "version (b_plan st) = version plan"
    and out4: "\<And>j. j \<notin> set ready \<Longrightarrow> steps (b_plan st) ! j = steps plan ! j"
    using len1 ver1 out1 by auto
  note settled = settle_results_settled [OF settle d b]
  have each: "(\<exists>e. step_verdict ag ctx it ?plan1 j = Inl e
                \<and> steps (b_plan st) ! j = mark_in_progress (started_clock ag it j) (steps plan ! j))
           \<or> (\<exists>res ev. step_verdict ag ctx it ?plan1 j = Inr (res, ev)
                \<and> steps (b_plan st) ! j = settled_step ag it j
                                    (mark_in_progress (started_clock ag it j) (steps plan ! j)) res ev)"
    if j: "j \<in> set ready" for j
  proof (cases "execute_step ag it j (steps ?plan1 ! j) (gather_previous_results ?plan1 (steps ?plan1 ! j)) ctx")
    case (Inl e)
    with j have "(j, Inl e) \<in> set ?rs" by (simp add: mem_rs)
    with settled have "steps (b_plan st) ! j = steps ?plan1 ! j" by auto
    with Inl in1 [OF j] show ?thesis by (simp add: step_verdict_def)
  next
    case (Inr res)
    with j have "(j, Inr res) \<in> set ?rs" by (simp add: mem_rs)
    with settled obtain ev where
      "evaluate ag it j ((steps ?plan1 ! j) \<lparr> status := EVALUATING \<rparr>) res = Inr ev"
      and "steps (b_plan st) ! j = settled_step ag it j (steps ?plan1 ! j) res ev"
      by force
    with Inr in1 [OF j] show ?thesis by (simp add: step_verdict_def)
  qed
  note nr = settle_results_needs_replan [OF settle d b]
  have failed_inr: "\<exists>res. (j, Inr res) \<in> set ?rs"
    if j: "j \<in> set ready" and f: "status (steps (b_plan st) ! j) = FAILED" for j
  proof (cases "execute_step ag it j (steps ?plan1 ! j) (gather_previous_results ?plan1 (steps ?plan1 ! j)) ctx")
    case (Inl e)
    with j have "(j, Inl e) \<in> set ?rs" by (simp add: mem_rs)
    with settled have "steps (b_plan st) ! j = steps ?plan1 ! j" by auto
    with in1 [OF j] f show ?thesis by (simp add: mark_in_progress_def)
  next
    case (Inr res)
    with j show ?thesis by (auto simp: mem_rs)
  qed
  have replanned: "\<exists>j\<in>set ready. \<exists>ev' res'. status (steps (b_plan st) ! j) = FAILED
                \<and> plan' = call_replan ag it (b_plan st) (steps (b_plan st) ! j) ev' res'"
    if ex: "\<exists>j\<in>set ready. status (steps (b_plan st) ! j) = FAILED"
  proof -
    from ex obtain j where j: "j \<in> set ready" "status (steps (b_plan st) ! j) = FAILED" by blast
    from failed_inr [OF j] obtain res where r: "(j, Inr res) \<in> set ?rs" ..
    with nr j have need: "b_needs_replan st" and last: "b_last st \<noteq> None" by auto
    from find_first [OF ex] obtain j0 where
      f: "find (\<lambda>i. status (steps (b_plan st) ! i) = FAILED) ready = Some j0"
      and j0: "j0 \<in> set ready" "status (steps (b_plan st) ! j0) = FAILED" by blast
    from last obtain ev' res' where l: "b_last st = Some (ev', res')" by (cases "b_last st") auto
    from pl need f l have "plan' = call_replan ag it (b_plan st) (steps (b_plan st) ! j0) ev' res'"
      by (simp add: replan_batch_def Let_def)
    with j0 show ?thesis by blast
  qed
  have kept: "plan' = b_plan st" if none: "\<forall>j\<in>set ready. status (steps (b_plan st) ! j) \<noteq> FAILED"
  proof -
    from nr none have "\<not> b_needs_replan st" by (auto simp: mem_rs)
    with pl show ?thesis by (simp add: replan_batch_def)
  qed
  show ?thesis
    unfolding batch_shape_def using len4 ver4 out4 each replanned kept by blast
qed

lemma loop_body_shape:
  assumes "loop_body ag gid ctx it plan = (evs, Inr (plan', brk))"
  shows "\<exists>p4. batch_shape ag ctx it plan (ready_indices plan) p4 plan'"
proof -
  let ?ready = "ready_indices plan"
  consider "?ready = []" | "length ?ready > 1" | i where "?ready = [i]"
    by (cases ?ready rule: list.exhaust; cases "tl ?ready") auto
  then show ?thesis
  proof cases
    case 1
    with assms have "plan' = plan" by (simp add: loop_body_def)
    with 1 show ?thesis by (auto simp: batch_shape_def)
  next
    case 2
    with assms obtain evs' where "run_parallel ag gid ctx it plan ?ready = (evs', Inr plan')"
      by (auto simp: loop_body_def Let_def split: prod.splits sum.splits if_splits)
    then show ?thesis
      using ready_indices_props(1) [of plan] ready_indices_props(2) [of _ plan]
      by (intro run_parallel_shape) auto
  next
    case 3
    then have il: "i < length (steps plan)" using ready_indices_props(2) [of i plan] by simp
    from 3 assms have rs: "run_sequential ag gid ctx it plan i = (evs, Inr (plan', brk))"
      by (simp add: loop_body_def)
    have sb: "start_batch ag it [i] plan = start_step ag it i plan" by (simp add: start_batch_def)
    have n1: "steps (start_step ag it i plan) ! i = mark_in_progress (started_clock ag it i) (steps plan ! i)"
      using il by (simp add: start_step_def)
    from run_sequential_shape [OF rs il] obtain res ev where
      v: "step_verdict ag ctx it (start_step ag it i plan) i = Inr (res, ev)"
      and sh: "let p4 = set_step (start_step ag it i plan) i
                     (settled_step ag it i (steps (start_step ag it i plan) ! i) res ev)
         in if status (steps p4 ! i) = FAILED
            then plan' = call_replan ag it p4 (steps p4 ! i) ev res \<and> brk
            else plan' = p4 \<and> \<not> brk" by blast
    let ?p4 = "set_step (start_step ag it i plan) i
                     (settled_step ag it i (steps (start_step ag it i plan) ! i) res ev)"
    have "batch_shape ag ctx it plan [i] ?p4 plan'"
      unfolding batch_shape_def using v sh il n1
      by (auto simp: sb Let_def start_step_def split: if_splits)
    with 3 show ?thesis by auto
  qed
qed

lemma batch_shape_fields:
  assumes sh: "batch_shape ag ctx it plan ready p4 plan'" and k: "k < length (steps plan)"
  shows "step_id (steps p4 ! k) = step_id (steps plan ! k)"
    and "max_retries (steps p4 ! k) = max_retries (steps plan ! k)"
proof -
  have "step_id (steps p4 ! k) = step_id (steps plan ! k)
      \<and> max_retries (steps p4 ! k) = max_retries (steps plan ! k)"
  proof (cases "k \<in> set ready")
    case True
    with sh show ?thesis
      unfolding batch_shape_def
      by (auto simp: settled_step_fields mark_in_progress_def)
  next
    case False
    with sh show ?thesis unfolding batch_shape_def by simp
  qed
  then show "step_id (steps p4 ! k) = step_id (steps plan ! k)"
    and "max_retries (steps p4 ! k) = max_retries (steps plan ! k)" by simp_all
qed

lemma batch_shape_ids:
  assumes "batch_shape ag ctx it plan ready p4 plan'"
  shows "map step_id (steps p4) = map step_id (steps plan)"
proof (rule nth_equalityI)
  from assms show "length (map step_id (steps p4)) = length (map step_id (steps plan))"
    by (simp add: batch_shape_def)
next
  fix k assume "k < length (map step_id (steps p4))"
  with assms have k: "k < length (steps plan)" by (simp add: batch_shape_def)
  with assms have "k < length (steps p4)" by (simp add: batch_shape_def)
  with k batch_shape_fields(1) [OF assms k]
  show "map step_id (steps p4) ! k = map step_id (steps plan) ! k" by simp
qed

lemma batch_shape_verdict:
  assumes sh: "batch_shape ag ctx it plan ready p4 plan'" and i: "i \<in> set ready"
    and v: "step_verdict ag ctx it (start_batch ag it ready plan) i = Inr (res, ev)"
  shows "steps p4 ! i = settled_step ag it i
                          (mark_in_progress (started_clock ag it i) (steps plan ! i)) res ev"
  using assms unfolding batch_shape_def by fastforce

text \<open>
  Claim C2. Take a round of the loop that returns and a ready step whose evaluation in
  this round is failure or partial. Let \<open>p4\<close> be the plan as the engine has settled it in
  this round, before any replan. The engine has incremented the step's retry counter. If
  the incremented counter is below the ceiling, the step is pending in \<open>p4\<close>, and the
  round returns \<open>p4\<close> or, when another step of the batch failed, the replan of \<open>p4\<close>; with
  unique step ids the step is pending with the incremented counter in the returned plan
  too. If the counter has reached the ceiling, the step is failed in \<open>p4\<close> and a replan is
  triggered for a failed step of \<open>p4\<close>: the returned plan is the replanner's output, its
  version is the old version plus one and it is active.
\<close>

theorem engine_failure_handling:
  assumes i: "i \<in> set (ready_indices plan)"
    and body: "loop_body ag gid ctx it plan = (evs, Inr (plan', brk))"
    and v: "step_verdict ag ctx it (start_batch ag it (ready_indices plan) plan) i = Inr (res, ev)"
    and bad: "ev_result ev = FAILURE \<or> ev_result ev = PARTIAL"
  shows "\<exists>p4. version p4 = version plan
           \<and> retry_count (steps p4 ! i) = retry_count (steps plan ! i) + 1
           \<and> max_retries (steps p4 ! i) = max_retries (steps plan ! i)
           \<and> (retry_count (steps p4 ! i) < max_retries (steps p4 ! i) \<longrightarrow>
                status (steps p4 ! i) = PENDING
                \<and> (plan' = p4
                    \<or> (\<exists>f ev' res'. plan' = call_replan ag it p4 f ev' res'
                           \<and> f \<in> set (steps p4) \<and> status f = FAILED))
                \<and> (distinct (map step_id (steps plan)) \<longrightarrow>
                      status (steps plan' ! i) = PENDING
                      \<and> retry_count (steps plan' ! i) = retry_count (steps plan ! i) + 1))
           \<and> (max_retries (steps p4 ! i) \<le> retry_count (steps p4 ! i) \<longrightarrow>
                status (steps p4 ! i) = FAILED
                \<and> (\<exists>f ev' res'. plan' = call_replan ag it p4 f ev' res'
                       \<and> f \<in> set (steps p4) \<and> status f = FAILED)
                \<and> version plan' = version plan + 1 \<and> is_active plan')"
proof -
  let ?ready = "ready_indices plan"
  let ?c = "retry_count (steps plan ! i) + 1"
  let ?m = "max_retries (steps plan ! i)"
  from loop_body_shape [OF body] obtain p4 where sh: "batch_shape ag ctx it plan ?ready p4 plan'" ..
  from bad have ns: "ev_result ev \<noteq> SUCCESS" by auto
  have il: "i < length (steps plan)" using i by (rule ready_indices_props(2))
  have len: "length (steps p4) = length (steps plan)" and ver: "version p4 = version plan"
    using sh by (simp_all add: batch_shape_def)
  have at_i: "steps p4 ! i = settled_step ag it i
                (mark_in_progress (started_clock ag it i) (steps plan ! i)) res ev"
    using sh i v by (rule batch_shape_verdict)
  have cnt: "retry_count (steps p4 ! i) = ?c"
    unfolding at_i using settled_step_failure(1) [OF ns] by (simp add: mark_in_progress_def)
  have mx: "max_retries (steps p4 ! i) = ?m"
    using sh il by (rule batch_shape_fields(2))
  have st: "status (steps p4 ! i) = (if ?m \<le> ?c then FAILED else PENDING)"
    unfolding at_i using settled_step_failure(2) [OF ns] by (simp add: mark_in_progress_def)
  have alt: "plan' = p4
      \<or> (\<exists>f ev' res'. plan' = call_replan ag it p4 f ev' res' \<and> f \<in> set (steps p4) \<and> status f = FAILED)"
  proof (cases "\<exists>j\<in>set ?ready. status (steps p4 ! j) = FAILED")
    case False
    with sh show ?thesis by (simp add: batch_shape_def)
  next
    case True
    with sh obtain j ev' res' where j: "j \<in> set ?ready" "status (steps p4 ! j) = FAILED"
      and pl: "plan' = call_replan ag it p4 (steps p4 ! j) ev' res'"
      unfolding batch_shape_def by blast
    from j(1) have "j < length (steps p4)" using len by (simp add: ready_indices_props(2))
    then have "steps p4 ! j \<in> set (steps p4)" by simp
    with pl j(2) show ?thesis by blast
  qed
  have below: "status (steps plan' ! i) = PENDING \<and> retry_count (steps plan' ! i) = ?c"
    if lt: "?c < ?m" and ids: "distinct (map step_id (steps plan))"
  proof (cases "\<exists>j\<in>set ?ready. status (steps p4 ! j) = FAILED")
    case False
    with sh have "plan' = p4" by (simp add: batch_shape_def)
    with st cnt lt show ?thesis by simp
  next
    case True
    from lt st have pend: "status (steps p4 ! i) = PENDING" by simp
    have ids4: "distinct (map step_id (steps p4))" using ids batch_shape_ids [OF sh] by simp
    from True sh obtain j ev' res' where j: "j \<in> set ?ready" "status (steps p4 ! j) = FAILED"
      and pl: "plan' = call_replan ag it p4 (steps p4 ! j) ev' res'"
      unfolding batch_shape_def by blast
    from j(1) have jl: "j < length (steps p4)" using len by (simp add: ready_indices_props(2))
    from j(2) pend have "i \<noteq> j" by auto
    with ids4 il jl len have "step_id (steps p4 ! i) \<noteq> step_id (steps p4 ! j)"
      by (auto simp: distinct_conv_nth)
    with il len pl pend cnt
      replan_other [of i p4 "steps p4 ! j" "new_plan_id ag it" "plan_clock ag it" "uuid4 ag it"
                       "replan_answer ag it p4 (steps p4 ! j) ev' res'"]
    show ?thesis by (simp add: call_replan_def)
  qed
  have ceil: "(\<exists>f ev' res'. plan' = call_replan ag it p4 f ev' res' \<and> f \<in> set (steps p4) \<and> status f = FAILED)
       \<and> version plan' = version plan + 1 \<and> is_active plan'"
    if ge: "?m \<le> ?c"
  proof -
    from ge st have f: "status (steps p4 ! i) = FAILED" by simp
    with i have "\<exists>j\<in>set ?ready. status (steps p4 ! j) = FAILED" by blast
    with sh obtain j ev' res' where j: "j \<in> set ?ready" "status (steps p4 ! j) = FAILED"
      and pl: "plan' = call_replan ag it p4 (steps p4 ! j) ev' res'"
      unfolding batch_shape_def by blast
    from j(1) have "j < length (steps p4)" using len by (simp add: ready_indices_props(2))
    then have "steps p4 ! j \<in> set (steps p4)" by simp
    with pl j(2) have "\<exists>f ev' res'. plan' = call_replan ag it p4 f ev' res' \<and> f \<in> set (steps p4) \<and> status f = FAILED"
      by blast
    moreover from pl ver have "version plan' = version plan + 1" by (simp add: call_replan_version)
    moreover from pl have "is_active plan'" by (simp add: call_replan_version)
    ultimately show ?thesis by simp
  qed
  show ?thesis
  proof (intro exI [of _ p4] conjI impI)
    show "version p4 = version plan" by (rule ver)
    show "retry_count (steps p4 ! i) = ?c" by (rule cnt)
    show "max_retries (steps p4 ! i) = ?m" by (rule mx)
  next
    assume "retry_count (steps p4 ! i) < max_retries (steps p4 ! i)"
    then have lt: "?c < ?m" by (simp add: cnt mx)
    with st show "status (steps p4 ! i) = PENDING" by simp
    show "plan' = p4
      \<or> (\<exists>f ev' res'. plan' = call_replan ag it p4 f ev' res' \<and> f \<in> set (steps p4) \<and> status f = FAILED)"
      by (rule alt)
    assume "distinct (map step_id (steps plan))"
    with lt below show "status (steps plan' ! i) = PENDING"
      and "retry_count (steps plan' ! i) = ?c" by simp_all
  next
    assume "max_retries (steps p4 ! i) \<le> retry_count (steps p4 ! i)"
    then have ge: "?m \<le> ?c" by (simp add: cnt mx)
    with st show "status (steps p4 ! i) = FAILED" by simp
    from ceil [OF ge] show "\<exists>f ev' res'. plan' = call_replan ag it p4 f ev' res' \<and> f \<in> set (steps p4) \<and> status f = FAILED"
      and "version plan' = version plan + 1" and "is_active plan'" by simp_all
  qed
qed

lemma retry_inv_nth: "retry_inv p \<longleftrightarrow> (\<forall>k < length (steps p). retry_ok (steps p ! k))"
  by (simp add: retry_inv_def list_all_length)

lemma edit_step_retry_ok: "edit_step ms c = Inr c' \<Longrightarrow> retry_ok c \<Longrightarrow> retry_ok c'"
  by (drule edit_step_fields) (simp add: retry_ok_def)

lemma apply_strategy_retry_ok: "retry_ok c \<Longrightarrow> retry_ok (apply_strategy strategy c)"
  by (simp add: apply_strategy_def retry_ok_def)

lemma copy_step_retry_ok: "copy_step mbi strategy f s = Inr c \<Longrightarrow> retry_ok s \<Longrightarrow> retry_ok c"
  by (auto simp: copy_step_def split: option.splits if_splits sum.splits
      intro: apply_strategy_retry_ok edit_step_retry_ok)

lemma copy_steps_retry_ok:
  "copy_steps mbi strategy f ss = Inr cs \<Longrightarrow> list_all retry_ok ss \<Longrightarrow> list_all retry_ok cs"
  by (induction ss arbitrary: cs) (auto split: sum.splits intro: copy_step_retry_ok)

lemma inserted_step_retry_ok: "inserted_step u f ms = Inr n \<Longrightarrow> retry_ok n"
  by (auto simp: inserted_step_def retry_ok_def split: sum.splits)

lemma insert_steps_retry_ok: "insert_steps uuids k f mss = Inr ns \<Longrightarrow> list_all retry_ok ns"
  by (induction mss arbitrary: k ns)
     (auto split: sum.splits if_splits intro: inserted_step_retry_ok)

lemma reset_failed_retry_ok: "retry_ok s \<Longrightarrow> retry_ok (reset_failed f ids s)"
  by (simp add: reset_failed_def retry_ok_def)

lemma apply_modifications_retry_inv:
  assumes "apply_modifications pid now uuids p f rd = Inr p'" and "retry_inv p"
  shows "retry_inv p'"
proof -
  from assms(1) obtain copied where
    cp: "copy_steps (modified_by_id (rd_modified_steps rd)) (get_or (rd_strategy rd) ''retry'') f (steps p) = Inr copied"
    by (auto simp: apply_modifications_def Let_def split: sum.splits)
  from cp assms(2) have ok: "list_all retry_ok copied"
    unfolding retry_inv_def by (rule copy_steps_retry_ok)
  show ?thesis
  proof (cases "get_or (rd_strategy rd) ''retry'' = ''insert''")
    case True
    with assms(1) cp have
      "\<exists>ns. insert_steps uuids 0 f (rd_modified_steps rd) = Inr ns
           \<and> steps p' = map (reset_failed f (map step_id ns)) (copied @ ns)"
      by (auto simp: apply_modifications_def Let_def split: sum.splits)
    then obtain ns where ns: "insert_steps uuids 0 f (rd_modified_steps rd) = Inr ns"
      and st: "steps p' = map (reset_failed f (map step_id ns)) (copied @ ns)" by blast
    from ns have "list_all retry_ok ns" by (rule insert_steps_retry_ok)
    with ok st show ?thesis
      by (auto simp: retry_inv_def list_all_iff intro: reset_failed_retry_ok)
  next
    case False
    with assms(1) cp have "steps p' = copied"
      by (auto simp: apply_modifications_def Let_def split: sum.splits)
    with ok show ?thesis by (simp add: retry_inv_def)
  qed
qed

lemma distinct_ids_same:
  assumes "distinct (map step_id ss)" and "f \<in> set ss" and "s \<in> set ss" and "step_id s = step_id f"
  shows "s = f"
  using assms by (meson distinct_map inj_onD)

lemma simple_retry_retry_inv:
  assumes inv: "retry_inv p" and ids: "distinct (map step_id (steps p))"
    and f: "f \<in> set (steps p)" and ex: "max_retries f \<le> retry_count f"
  shows "retry_inv (simple_retry pid now p f)"
proof -
  have "retry_ok (simple_retry_step f s)" if s: "s \<in> set (steps p)" for s
  proof (cases "step_id s = step_id f")
    case True
    with ids f s have "s = f" by (rule distinct_ids_same)
    with inv f ex show ?thesis
      by (auto simp: simple_retry_step_def retry_ok_def retry_inv_def list_all_iff)
  next
    case False
    with inv s show ?thesis by (simp add: simple_retry_step_def retry_inv_def list_all_iff)
  qed
  then show ?thesis by (simp add: simple_retry_def retry_inv_def list_all_iff)
qed

lemma simple_retry_ids: "map step_id (steps (simple_retry pid now p f)) = map step_id (steps p)"
  by (simp add: simple_retry_def simple_retry_step_def comp_def)

lemma call_replan_inv:
  assumes inv: "retry_inv p" and ids: "distinct (map step_id (steps p))"
    and f: "f \<in> set (steps p)" and ex: "max_retries f \<le> retry_count f"
    and uniq: "\<And>rd p'. replan_answer ag it p f ev res = Inr rd \<Longrightarrow>
         apply_modifications (new_plan_id ag it) (plan_clock ag it) (uuid4 ag it) p f rd = Inr p' \<Longrightarrow>
         distinct (map step_id (steps p'))"
  shows "retry_inv (call_replan ag it p f ev res) \<and> distinct (map step_id (steps (call_replan ag it p f ev res)))"
proof -
  have sr: "retry_inv (simple_retry (new_plan_id ag it) (plan_clock ag it) p f)
      \<and> distinct (map step_id (steps (simple_retry (new_plan_id ag it) (plan_clock ag it) p f)))"
    using simple_retry_retry_inv [OF inv ids f ex] ids by (simp add: simple_retry_ids)
  show ?thesis
  proof (cases "replan_answer ag it p f ev res")
    case (Inl e)
    with sr show ?thesis by (simp add: call_replan_def replan_def)
  next
    case (Inr rd)
    show ?thesis
    proof (cases "apply_modifications (new_plan_id ag it) (plan_clock ag it) (uuid4 ag it) p f rd")
      case (Inl e)
      with Inr sr show ?thesis by (simp add: call_replan_def replan_def)
    next
      case r: (Inr p')
      from r inv have "retry_inv p'" by (rule apply_modifications_retry_inv)
      moreover from Inr r have "distinct (map step_id (steps p'))" by (rule uniq)
      ultimately show ?thesis using Inr r by (simp add: call_replan_def replan_def)
    qed
  qed
qed

lemma settled_step_retry_ok:
  assumes "retry_ok s" and "retry_count s < max_retries s"
  shows "retry_ok (settled_step ag it i (mark_in_progress now s) res ev)"
    and "status (settled_step ag it i (mark_in_progress now s) res ev) = FAILED \<Longrightarrow>
         max_retries (settled_step ag it i (mark_in_progress now s) res ev)
           \<le> retry_count (settled_step ag it i (mark_in_progress now s) res ev)"
  using assms
  by (auto simp: settled_step_def retry_ok_def mark_in_progress_def mark_completed_def
      mark_failed_def mark_retrying_def Let_def split: if_splits)

lemma batch_shape_retry_inv:
  assumes sh: "batch_shape ag ctx it plan (ready_indices plan) p4 plan'" and inv: "retry_inv plan"
  shows "retry_inv p4"
    and "\<forall>j\<in>set (ready_indices plan). status (steps p4 ! j) = FAILED \<longrightarrow>
           max_retries (steps p4 ! j) \<le> retry_count (steps p4 ! j)"
proof -
  have len: "length (steps p4) = length (steps plan)" using sh by (simp add: batch_shape_def)
  have step: "retry_ok (steps p4 ! k) \<and>
      (k \<in> set (ready_indices plan) \<longrightarrow> status (steps p4 ! k) = FAILED \<longrightarrow>
         max_retries (steps p4 ! k) \<le> retry_count (steps p4 ! k))"
    if k: "k < length (steps plan)" for k
  proof (cases "k \<in> set (ready_indices plan)")
    case False
    with sh have "steps p4 ! k = steps plan ! k" by (simp add: batch_shape_def)
    with inv k False show ?thesis by (simp add: retry_inv_nth)
  next
    case True
    from inv k have ok: "retry_ok (steps plan ! k)" by (simp add: retry_inv_nth)
    from True have "status (steps plan ! k) = PENDING" by (rule ready_indices_props(3))
    with ok have lt: "retry_count (steps plan ! k) < max_retries (steps plan ! k)"
      by (simp add: retry_ok_def)
    from sh True consider
      "steps p4 ! k = mark_in_progress (started_clock ag it k) (steps plan ! k)"
      | res ev where "steps p4 ! k = settled_step ag it k
                        (mark_in_progress (started_clock ag it k) (steps plan ! k)) res ev"
      unfolding batch_shape_def by blast
    then show ?thesis
    proof cases
      case 1
      with ok show ?thesis by (simp add: mark_in_progress_def retry_ok_def)
    next
      case 2
      with settled_step_retry_ok [OF ok lt] show ?thesis by simp
    qed
  qed
  from step len show "retry_inv p4" by (simp add: retry_inv_nth)
  from step show "\<forall>j\<in>set (ready_indices plan). status (steps p4 ! j) = FAILED \<longrightarrow>
           max_retries (steps p4 ! j) \<le> retry_count (steps p4 ! j)"
    using ready_indices_props(2) by blast
qed

lemma loop_body_inv:
  assumes body: "loop_body ag gid ctx it plan = (evs, Inr (plan', brk))"
    and inv: "retry_inv plan" and ids: "distinct (map step_id (steps plan))"
    and uniq: "\<forall>it p f ev res rd p'. replan_answer ag it p f ev res = Inr rd \<longrightarrow>
         apply_modifications (new_plan_id ag it) (plan_clock ag it) (uuid4 ag it) p f rd = Inr p' \<longrightarrow>
         distinct (map step_id (steps p)) \<longrightarrow> distinct (map step_id (steps p'))"
  shows "retry_inv plan' \<and> distinct (map step_id (steps plan'))"
proof -
  let ?ready = "ready_indices plan"
  from loop_body_shape [OF body] obtain p4 where sh: "batch_shape ag ctx it plan ?ready p4 plan'" ..
  have inv4: "retry_inv p4" using sh inv by (rule batch_shape_retry_inv(1))
  have cap: "\<forall>j\<in>set ?ready. status (steps p4 ! j) = FAILED \<longrightarrow>
           max_retries (steps p4 ! j) \<le> retry_count (steps p4 ! j)"
    using sh inv by (rule batch_shape_retry_inv(2))
  have ids4: "distinct (map step_id (steps p4))" using ids batch_shape_ids [OF sh] by simp
  have len: "length (steps p4) = length (steps plan)" using sh by (simp add: batch_shape_def)
  show ?thesis
  proof (cases "\<exists>j\<in>set ?ready. status (steps p4 ! j) = FAILED")
    case False
    with sh have "plan' = p4" by (simp add: batch_shape_def)
    with inv4 ids4 show ?thesis by simp
  next
    case True
    with sh obtain j ev' res' where j: "j \<in> set ?ready" "status (steps p4 ! j) = FAILED"
      and pl: "plan' = call_replan ag it p4 (steps p4 ! j) ev' res'"
      unfolding batch_shape_def by blast
    from j(1) have "j < length (steps p4)" using len by (simp add: ready_indices_props(2))
    then have mem: "steps p4 ! j \<in> set (steps p4)" by simp
    from cap j have ex: "max_retries (steps p4 ! j) \<le> retry_count (steps p4 ! j)" by blast
    have "retry_inv (call_replan ag it p4 (steps p4 ! j) ev' res')
        \<and> distinct (map step_id (steps (call_replan ag it p4 (steps p4 ! j) ev' res')))"
      using inv4 ids4 mem ex
    proof (rule call_replan_inv)
      fix rd p'
      assume "replan_answer ag it p4 (steps p4 ! j) ev' res' = Inr rd"
        and "apply_modifications (new_plan_id ag it) (plan_clock ag it) (uuid4 ag it) p4 (steps p4 ! j) rd = Inr p'"
      with uniq ids4 show "distinct (map step_id (steps p'))" by blast
    qed
    with pl show ?thesis by simp
  qed
qed

lemma execute_plan_from_inv:
  "execute_plan_from ag gid ctx iteration plan = (evs, Inr final) \<Longrightarrow>
   retry_inv plan \<Longrightarrow> distinct (map step_id (steps plan)) \<Longrightarrow>
   \<forall>it p f ev res rd p'. replan_answer ag it p f ev res = Inr rd \<longrightarrow>
         apply_modifications (new_plan_id ag it) (plan_clock ag it) (uuid4 ag it) p f rd = Inr p' \<longrightarrow>
         distinct (map step_id (steps p)) \<longrightarrow> distinct (map step_id (steps p')) \<Longrightarrow>
   retry_inv final \<and> distinct (map step_id (steps final))"
proof (induction ag gid ctx iteration plan arbitrary: evs rule: execute_plan_from.induct)
  case (1 ag gid ctx iteration plan)
  show ?case
  proof (cases "\<not> is_complete plan \<and> iteration < max_plan_iterations")
    case False
    with "1.prems"(1) have "final = plan"
      by (subst (asm) execute_plan_from.simps) auto
    with "1.prems" show ?thesis by simp
  next
    case True
    obtain evs1 r where lb: "loop_body ag gid ctx (iteration + 1) plan = (evs1, r)"
      by (cases "loop_body ag gid ctx (iteration + 1) plan")
    from "1.prems"(1) True lb obtain plan' brk where r: "r = Inr (plan', brk)"
      by (subst (asm) execute_plan_from.simps) (cases r, auto)
    from loop_body_inv [OF lb [unfolded r] "1.prems"(2,3,4)]
    have inv': "retry_inv plan'" and ids': "distinct (map step_id (steps plan'))" by simp_all
    show ?thesis
    proof (cases brk)
      case True
      with "1.prems"(1) \<open>\<not> is_complete plan \<and> iteration < max_plan_iterations\<close> lb r
      have "final = plan'" by (subst (asm) execute_plan_from.simps) auto
      with inv' ids' show ?thesis by simp
    next
      case False
      with "1.prems"(1) \<open>\<not> is_complete plan \<and> iteration < max_plan_iterations\<close> lb r
      obtain evs2 where rec: "execute_plan_from ag gid ctx (iteration + 1) plan' = (evs2, Inr final)"
        by (subst (asm) execute_plan_from.simps) (auto split: prod.splits)
      from "1.IH" [OF \<open>\<not> is_complete plan \<and> iteration < max_plan_iterations\<close>
                      lb [symmetric] r refl False rec inv' ids' "1.prems"(4)]
      show ?thesis .
    qed
  qed
qed

lemma new_step_retry_ok: "retry_ok (new_step sid t d eo)"
  by (simp add: retry_ok_def new_step_def)

lemma simple_retry_exhausted:
  assumes "k < length (steps plan)" and "max_retries (steps plan ! k) \<le> retry_count (steps plan ! k)"
  shows "steps (simple_retry pid now plan (steps plan ! k)) ! k =
           (steps plan ! k) \<lparr> status := FAILED,
              error_message := Some (''Hard cap reached: '' @ str_int (retry_count (steps plan ! k))
                                       @ '' retries exhausted. Terminating loop.'') \<rparr>"
    and "k \<notin> set (ready_indices (simple_retry pid now plan (steps plan ! k)))"
  using assms by (simp_all add: simple_retry_def simple_retry_step_def ready_indices_def)

text \<open>
  The fallback and the bound for plans whose step ids are unique. When generation raises
  (or applying the answer raises), \<open>replan\<close> returns the simple-retry plan. Simple retry
  marks a step whose counter has reached the ceiling failed, with the terminal hard-cap
  message, and the step is not ready in the new plan. For a plan with unique step ids
  whose steps satisfy the retry invariant, and a replanner whose successful answers keep
  the ids unique, every round of the loop that returns gives a plan that satisfies the
  invariant again, and so does the plan returned by the whole loop.
\<close>

lemma retry_bound_unique_ids:
  "replan pid now uuids (Inl e) plan f = simple_retry pid now plan f
   \<and> (apply_modifications pid now uuids plan f rd = Inl e \<longrightarrow>
        replan pid now uuids (Inr rd) plan f = simple_retry pid now plan f)
   \<and> (k < length (steps plan) \<longrightarrow> max_retries (steps plan ! k) \<le> retry_count (steps plan ! k) \<longrightarrow>
        steps (simple_retry pid now plan (steps plan ! k)) ! k =
           (steps plan ! k) \<lparr> status := FAILED,
              error_message := Some (''Hard cap reached: '' @ str_int (retry_count (steps plan ! k))
                                       @ '' retries exhausted. Terminating loop.'') \<rparr>
        \<and> k \<notin> set (ready_indices (simple_retry pid now plan (steps plan ! k))))
   \<and> (retry_inv plan \<longrightarrow> distinct (map step_id (steps plan)) \<longrightarrow>
       (\<forall>it p f ev res rd p'. replan_answer ag it p f ev res = Inr rd \<longrightarrow>
           apply_modifications (new_plan_id ag it) (plan_clock ag it) (uuid4 ag it) p f rd = Inr p' \<longrightarrow>
           distinct (map step_id (steps p)) \<longrightarrow> distinct (map step_id (steps p'))) \<longrightarrow>
         (\<forall>evs plan' brk. loop_body ag gid ctx it plan = (evs, Inr (plan', brk)) \<longrightarrow>
             retry_inv plan' \<and> distinct (map step_id (steps plan')))
         \<and> (\<forall>evs final. execute_plan ag plan gid ctx = (evs, Inr final) \<longrightarrow>
               (\<forall>s\<in>set (steps final).
                   retry_count s \<le> max_retries s
                   \<and> (status s = PENDING \<longrightarrow> retry_count s < max_retries s))))"
proof (intro conjI impI allI ballI)
  show "replan pid now uuids (Inl e) plan f = simple_retry pid now plan f"
    by (simp add: replan_def)
next
  assume "apply_modifications pid now uuids plan f rd = Inl e"
  then show "replan pid now uuids (Inr rd) plan f = simple_retry pid now plan f"
    by (simp add: replan_def)
next
  assume "k < length (steps plan)" "max_retries (steps plan ! k) \<le> retry_count (steps plan ! k)"
  then show "steps (simple_retry pid now plan (steps plan ! k)) ! k =
           (steps plan ! k) \<lparr> status := FAILED,
              error_message := Some (''Hard cap reached: '' @ str_int (retry_count (steps plan ! k))
                                       @ '' retries exhausted. Terminating loop.'') \<rparr>"
    and "k \<notin> set (ready_indices (simple_retry pid now plan (steps plan ! k)))"
    by (rule simple_retry_exhausted)+
next
  fix evs plan' brk
  assume "retry_inv plan" "distinct (map step_id (steps plan))"
    "\<forall>it p f ev res rd p'. replan_answer ag it p f ev res = Inr rd \<longrightarrow>
           apply_modifications (new_plan_id ag it) (plan_clock ag it) (uuid4 ag it) p f rd = Inr p' \<longrightarrow>
           distinct (map step_id (steps p)) \<longrightarrow> distinct (map step_id (steps p'))"
    "loop_body ag gid ctx it plan = (evs, Inr (plan', brk))"
  from loop_body_inv [OF this(4,1,2,3)]
  show "retry_inv plan'" and "distinct (map step_id (steps plan'))" by simp_all
next
  fix evs final s
  assume a: "retry_inv plan" "distinct (map step_id (steps plan))"
    "\<forall>it p f ev res rd p'. replan_answer ag it p f ev res = Inr rd \<longrightarrow>
           apply_modifications (new_plan_id ag it) (plan_clock ag it) (uuid4 ag it) p f rd = Inr p' \<longrightarrow>
           distinct (map step_id (steps p)) \<longrightarrow> distinct (map step_id (steps p'))"
    "execute_plan ag plan gid ctx = (evs, Inr final)" and s: "s \<in> set (steps final)"
  from a(4) have "execute_plan_from ag gid ctx 0 plan = (evs, Inr final)"
    by (simp add: execute_plan_def)
  from execute_plan_from_inv [OF this a(1,2,3)] have "retry_inv final" by simp
  with s have ok: "retry_ok s" by (simp add: retry_inv_def list_all_iff)
  then show "retry_count s \<le> max_retries s" by (simp add: retry_ok_def)
  assume "status s = PENDING"
  with ok show "retry_count s < max_retries s" by (simp add: retry_ok_def)
qed

text \<open>\<open>_simple_retry\<close> on one step, branch by branch: a step with another id is copied; a step
  with the id of the failed step is marked failed with the hard-cap message when its
  counter has reached its ceiling, and otherwise set pending with its counter
  incremented, also when the incremented counter equals the ceiling.\<close>

lemma simple_retry_step_cases:
  "(step_id s \<noteq> step_id f \<longrightarrow> simple_retry_step f s = s)
   \<and> (step_id s = step_id f \<longrightarrow> max_retries s \<le> retry_count s \<longrightarrow>
        simple_retry_step f s =
          s \<lparr> status := FAILED,
              error_message := Some (''Hard cap reached: '' @ str_int (retry_count s)
                                       @ '' retries exhausted. Terminating loop.'') \<rparr>)
   \<and> (step_id s = step_id f \<longrightarrow> retry_count s < max_retries s \<longrightarrow>
        simple_retry_step f s =
          s \<lparr> status := PENDING, retry_count := retry_count s + 1,
              error_message := None, result_payload := None \<rparr>)"
  by (simp add: simple_retry_step_def)

lemma simple_retry_steps:
  "steps (simple_retry pid now plan f) = map (simple_retry_step f) (steps plan)
   \<and> version (simple_retry pid now plan f) = version plan + 1
   \<and> is_active (simple_retry pid now plan f)"
  by (simp add: simple_retry_def)

text \<open>
  Claim C8. The bound of the claim fails for a plan in which two steps carry the same
  \<open>step_id\<close>; the planner and the replanner take the ids from the model's answer and
  nothing keeps them apart. \<open>_simple_retry\<close> selects its step by
  \<open>s.step_id == failed_step.step_id\<close>, so it also handles the twin of the failed step, and
  for a twin below its ceiling it increments the counter and leaves the twin pending
  without comparing the incremented counter with the ceiling. In the run below the
  evaluator rejects every result of the two steps named \<open>s1\<close> and the replanner cannot be
  reached. After three rounds the first \<open>s1\<close> has failed three times and the fallback has
  marked it failed; the second \<open>s1\<close>, which started one round later, has failed twice and
  the fallback has raised its counter to 3, its ceiling, and left it pending and ready.
  The fourth round executes it once more: its counter becomes 4, above the ceiling of 3,
  before it is marked failed, and the hard-cap message itself reports 4 retries.
\<close>

theorem simple_retry_twin_exceeds_ceiling:
  "(case loop_body ex_dup_agents ''g1'' ''Prepare for GATE'' 1 ex_dup_plan of
      (evs1, Inr (p1, b1)) \<Rightarrow>
        (case loop_body ex_dup_agents ''g1'' ''Prepare for GATE'' 2 p1 of
           (evs2, Inr (p2, b2)) \<Rightarrow>
             (case loop_body ex_dup_agents ''g1'' ''Prepare for GATE'' 3 p2 of
                (evs3, Inr (p3, b3)) \<Rightarrow>
                  map retry_count (steps p1) = [1, 0, 0]
                  \<and> map retry_count (steps p2) = [2, 1, 0]
                  \<and> version p2 = 1 \<and> version p3 = 2
                  \<and> map status (steps p3) = [FAILED, PENDING, COMPLETED]
                  \<and> map retry_count (steps p3) = [3, 3, 0]
                  \<and> map max_retries (steps p3) = [3, 3, 3]
                  \<and> ready_indices p3 = [1]
              | _ \<Rightarrow> False)
         | _ \<Rightarrow> False)
    | _ \<Rightarrow> False)
   \<and> (case execute_plan ex_dup_agents ex_dup_plan ''g1'' ''Prepare for GATE'' of
        (evs, Inr final) \<Rightarrow>
           version final = 3
           \<and> map step_id (steps final) = [''s1'', ''s1'', ''s2'']
           \<and> map status (steps final) = [FAILED, FAILED, COMPLETED]
           \<and> map retry_count (steps final) = [3, 4, 0]
           \<and> map max_retries (steps final) = [3, 3, 3]
           \<and> map error_message (steps final)
                = [Some ''Hard cap reached: 3 retries exhausted. Terminating loop.'',
                   Some ''Hard cap reached: 4 retries exhausted. Terminating loop.'', None]
           \<and> max_retries (steps final ! 1) < retry_count (steps final ! 1)
      | _ \<Rightarrow> False)"
  by code_simp

lemma ex_last_try_body:
  "\<exists>evs plan' brk. loop_body ex_agents ''g1'' ''Prepare for GATE'' 1 ex_last_try_plan = (evs, Inr (plan', brk))"
proof -
  have "(case loop_body ex_agents ''g1'' ''Prepare for GATE'' 1 ex_last_try_plan of
          (evs, Inr (plan', brk)) \<Rightarrow> True | _ \<Rightarrow> False)"
    by code_simp
  then show ?thesis by (auto split: prod.splits sum.splits)
qed

lemma ex_fresh_body:
  "\<exists>evs plan' brk. loop_body ex_agents ''g1'' ''Prepare for GATE'' 1 ex_fresh_plan = (evs, Inr (plan', brk))"
proof -
  have "(case loop_body ex_agents ''g1'' ''Prepare for GATE'' 1 ex_fresh_plan of
          (evs, Inr (plan', brk)) \<Rightarrow> True | _ \<Rightarrow> False)"
    by code_simp
  then show ?thesis by (auto split: prod.splits sum.splits)
qed

lemma ex_verdicts:
  "step_verdict ex_agents ''Prepare for GATE'' 1
     (start_batch ex_agents 1 (ready_indices ex_last_try_plan) ex_last_try_plan) 1
   = Inr ([(''result_summary'', ''done'')],
          \<lparr> ev_step_id = ''b'', ev_result = FAILURE, reasoning = ''not good enough'',
            suggestions = [] \<rparr>)"
  "step_verdict ex_agents ''Prepare for GATE'' 1
     (start_batch ex_agents 1 (ready_indices ex_fresh_plan) ex_fresh_plan) 1
   = Inr ([(''result_summary'', ''done'')],
          \<lparr> ev_step_id = ''b'', ev_result = FAILURE, reasoning = ''not good enough'',
            suggestions = [] \<rparr>)"
  by code_simp+

lemma ex_ready:
  "ready_indices ex_last_try_plan = [1]" "ready_indices ex_fresh_plan = [1]"
  by code_simp+

text \<open>One failed attempt with retries left, and one that reaches the ceiling.\<close>

theorem engine_failure_handling_witness:
  "distinct (map step_id (steps ex_fresh_plan)) \<and> 1 \<in> set (ready_indices ex_fresh_plan)
   \<and> retry_count (steps ex_fresh_plan ! 1) + 1 < max_retries (steps ex_fresh_plan ! 1)
   \<and> step_verdict ex_agents ''Prepare for GATE'' 1
         (start_batch ex_agents 1 (ready_indices ex_fresh_plan) ex_fresh_plan) 1
       = Inr ([(''result_summary'', ''done'')],
              \<lparr> ev_step_id = ''b'', ev_result = FAILURE, reasoning = ''not good enough'',
                suggestions = [] \<rparr>)
   \<and> (\<exists>evs plan' brk.
         loop_body ex_agents ''g1'' ''Prepare for GATE'' 1 ex_fresh_plan = (evs, Inr (plan', brk))
         \<and> status (steps plan' ! 1) = PENDING \<and> retry_count (steps plan' ! 1) = 1)
   \<and> 1 \<in> set (ready_indices ex_last_try_plan)
   \<and> max_retries (steps ex_last_try_plan ! 1) \<le> retry_count (steps ex_last_try_plan ! 1) + 1
   \<and> (\<exists>evs plan' brk.
         loop_body ex_agents ''g1'' ''Prepare for GATE'' 1 ex_last_try_plan = (evs, Inr (plan', brk))
         \<and> version plan' = 2 \<and> is_active plan')"
proof -
  let ?ev = "\<lparr> ev_step_id = ''b'', ev_result = FAILURE, reasoning = ''not good enough'',
            suggestions = [] \<rparr>"
  have bad: "ev_result ?ev = FAILURE \<or> ev_result ?ev = PARTIAL" by simp
  have ids1: "distinct (map step_id (steps ex_fresh_plan))"
    by (simp add: ex_fresh_plan_def new_step_def)
  have r1: "1 \<in> set (ready_indices ex_fresh_plan)" and r2: "1 \<in> set (ready_indices ex_last_try_plan)"
    by (simp_all add: ex_ready)
  have c1: "retry_count (steps ex_fresh_plan ! 1) + 1 < max_retries (steps ex_fresh_plan ! 1)"
    by (simp add: ex_fresh_plan_def new_step_def)
  have c2: "max_retries (steps ex_last_try_plan ! 1) \<le> retry_count (steps ex_last_try_plan ! 1) + 1"
    by (simp add: ex_last_try_plan_def new_step_def)
  have n1: "retry_count (steps ex_fresh_plan ! 1) = 0" by (simp add: ex_fresh_plan_def new_step_def)
  have v2: "version ex_last_try_plan = 1" by (simp add: ex_last_try_plan_def)
  from ex_fresh_body obtain evs1 p1 b1 where
    l1: "loop_body ex_agents ''g1'' ''Prepare for GATE'' 1 ex_fresh_plan = (evs1, Inr (p1, b1))" by blast
  from ex_last_try_body obtain evs2 p2 b2 where
    l2: "loop_body ex_agents ''g1'' ''Prepare for GATE'' 1 ex_last_try_plan = (evs2, Inr (p2, b2))" by blast
  from engine_failure_handling [OF r1 l1 ex_verdicts(2) bad] ids1 c1 n1
  have a1: "status (steps p1 ! 1) = PENDING \<and> retry_count (steps p1 ! 1) = 1" by auto
  from engine_failure_handling [OF r2 l2 ex_verdicts(1) bad] c2 v2
  have a2: "version p2 = 2 \<and> is_active p2" by auto
  from l1 a1 have e1: "\<exists>evs plan' brk.
         loop_body ex_agents ''g1'' ''Prepare for GATE'' 1 ex_fresh_plan = (evs, Inr (plan', brk))
         \<and> status (steps plan' ! 1) = PENDING \<and> retry_count (steps plan' ! 1) = 1"
    by (intro exI [of _ evs1] exI [of _ p1] exI [of _ b1]) simp
  from l2 a2 have e2: "\<exists>evs plan' brk.
         loop_body ex_agents ''g1'' ''Prepare for GATE'' 1 ex_last_try_plan = (evs, Inr (plan', brk))
         \<and> version plan' = 2 \<and> is_active plan'"
    by (intro exI [of _ evs2] exI [of _ p2] exI [of _ b2]) simp
  from ids1 r1 c1 ex_verdicts(2) e1 r2 c2 e2 show ?thesis by (intro conjI)
qed

end

